theory Spec2Isabelle
  imports Main "HOL-Library.AList"
begin

section \<open>JavaScript values and the object store\<close>

text \<open>
  The \<open>Site\<close> model (lib/site/index.js) mutates objects that are shared by reference:
  \<open>reflectSavedSettings\<close> writes into the object \<open>this.settings\<close> points to and hands the
  same reference to \<open>set\<close>. Objects therefore live in a store, and a value is a primitive
  or a reference into the store.

  \<^item> Numbers are modelled as integers (status codes and millisecond timestamps are the
    only numbers the code looks at).
  \<^item> An object is the list of its own enumerable properties in insertion order, which
    is the order \<open>for ... in\<close> visits them (but for index-like keys, which JavaScript
    visits first; nothing here depends on the order); an array is an object flagged
    \<open>isArray\<close> whose keys are its indices.
  \<^item> Inherited properties (the methods on \<open>Site.prototype\<close> and \<open>Object.prototype\<close>,
    an array's \<open>length\<close>) are not part of the model: a property is read as an own
    property, and the methods the code calls are taken to be in place. The keys under
    which an own property would be in their way are listed as \<open>reservedKeys\<close> below.
\<close>

type_synonym addr = nat

datatype jsval =
    JUndefined
  | JNull
  | JBool bool
  | JNum int
  | JStr string
  | JRef addr

record hobj =
  isArray :: bool
  props :: "(string \<times> jsval) list"

type_synonym heap = "hobj list"

datatype error = TypeError

definition lookup :: "heap \<Rightarrow> addr \<Rightarrow> hobj option" where
  "lookup h a = (if a < length h then Some (h ! a) else None)"

definition alloc :: "heap \<Rightarrow> hobj \<Rightarrow> heap \<times> addr" where
  "alloc h obj = (h @ [obj], length h)"

definition plain :: "(string \<times> jsval) list \<Rightarrow> hobj" where
  "plain ps = \<lparr>isArray = False, props = ps\<rparr>"

text \<open>Decimal index strings, the keys of array elements and of a string's characters.\<close>

fun decimal :: "nat \<Rightarrow> string" where
  "decimal n =
     (if n < 10 then [''0123456789'' ! n]
      else decimal (n div 10) @ [''0123456789'' ! (n mod 10)])"

declare decimal.simps [simp del]

definition indexed :: "jsval list \<Rightarrow> (string \<times> jsval) list" where
  "indexed vs = zip (map decimal [0..<length vs]) vs"

definition array :: "jsval list \<Rightarrow> hobj" where
  "array vs = \<lparr>isArray = True, props = indexed vs\<rparr>"

text \<open>
  The own enumerable properties of a value: those of the object a reference points to, the
  characters of a string under their indices, none for the other primitives. A reference
  outside the store does not occur in a running program; it reads as an object without
  properties.
\<close>

fun ownProps :: "heap \<Rightarrow> jsval \<Rightarrow> (string \<times> jsval) list" where
  "ownProps h (JRef a) = (case lookup h a of Some obj \<Rightarrow> props obj | None \<Rightarrow> [])"
| "ownProps h (JStr s) = indexed (map (\<lambda>c. JStr [c]) s)"
| "ownProps h v = []"

definition ownKeys :: "heap \<Rightarrow> jsval \<Rightarrow> string list" where
  "ownKeys h v = map fst (ownProps h v)"

text \<open>\<open>v[k]\<close> where \<open>v\<close> is known not to be \<open>undefined\<close> or \<open>null\<close>.\<close>

definition getOwn :: "heap \<Rightarrow> jsval \<Rightarrow> string \<Rightarrow> jsval" where
  "getOwn h v k = (case map_of (ownProps h v) k of Some x \<Rightarrow> x | None \<Rightarrow> JUndefined)"

text \<open>\<open>v[k]\<close> in general: reading a property of \<open>undefined\<close> or \<open>null\<close> throws.\<close>

definition getProp :: "heap \<Rightarrow> jsval \<Rightarrow> string \<Rightarrow> error + jsval" where
  "getProp h v k = (if v = JUndefined \<or> v = JNull then Inl TypeError else Inr (getOwn h v k))"

text \<open>\<open>this[k] = x\<close> and \<open>delete this[k]\<close> on the object at an address.\<close>

definition putOwn :: "heap \<Rightarrow> addr \<Rightarrow> string \<Rightarrow> jsval \<Rightarrow> heap" where
  "putOwn h a k x =
     (case lookup h a of
        None \<Rightarrow> h
      | Some obj \<Rightarrow> h[a := obj\<lparr>props := AList.update k x (props obj)\<rparr>])"

definition deleteOwn :: "heap \<Rightarrow> addr \<Rightarrow> string \<Rightarrow> heap" where
  "deleteOwn h a k =
     (case lookup h a of
        None \<Rightarrow> h
      | Some obj \<Rightarrow> h[a := obj\<lparr>props := AList.delete k (props obj)\<rparr>])"

text \<open>
  \<open>v[k] = x\<close> in general: it throws on \<open>undefined\<close> and \<open>null\<close>; on another primitive the
  assignment is dropped (the file has no strict-mode directive).
\<close>

fun setProp :: "heap \<Rightarrow> jsval \<Rightarrow> string \<Rightarrow> jsval \<Rightarrow> error + heap" where
  "setProp h JUndefined k x = Inl TypeError"
| "setProp h JNull k x = Inl TypeError"
| "setProp h (JRef a) k x = Inr (putOwn h a k x)"
| "setProp h v k x = Inr h"

text \<open>JavaScript truthiness, as \<open>if ( error )\<close>, \<open>!error\<close>, \<open>a || b\<close> and \<open>c ? x : y\<close> read it.\<close>

fun truthy :: "jsval \<Rightarrow> bool" where
  "truthy JUndefined = False"
| "truthy JNull = False"
| "truthy (JBool b) = b"
| "truthy (JNum n) = (n \<noteq> 0)"
| "truthy (JStr s) = (s \<noteq> [])"
| "truthy (JRef a) = True"

fun isRef :: "jsval \<Rightarrow> bool" where
  "isRef (JRef a) = True"
| "isRef v = False"

subsection \<open>Deep equality\<close>

text \<open>
  \<open>isEqual\<close> is lodash's (an external dependency): identical values are equal; two
  objects are equal when both or neither are arrays, they have as many own keys, and every
  key of the first is a key of the second with an equal value. The comparison descends at
  most as deep as the store has objects, which is every level of a store without cycles;
  where a cycle leads deeper, the pair is taken as equal (lodash, too, assumes a pair it is
  already comparing equal). On objects that both lie on cycles lodash's answer hangs on
  which pair it meets again and can differ from this one; the statements that rest on a
  comparison of two different objects are for plain data (\<open>plainData\<close> below), where the
  bound is not met.
\<close>

primrec baseIsEqual :: "nat \<Rightarrow> heap \<Rightarrow> jsval \<Rightarrow> jsval \<Rightarrow> bool" where
  "baseIsEqual 0 h a b = (a = b \<or> (isRef a \<and> isRef b))"
| "baseIsEqual (Suc n) h a b =
     (if a = b then True
      else case (a, b) of
        (JRef x, JRef y) \<Rightarrow>
          (case (lookup h x, lookup h y) of
             (Some p, Some q) \<Rightarrow>
               isArray p = isArray q \<and>
               length (props p) = length (props q) \<and>
               list_all (\<lambda>kv. case map_of (props q) (fst kv) of
                                 None \<Rightarrow> False
                               | Some w \<Rightarrow> baseIsEqual n h (snd kv) w) (props p)
           | _ \<Rightarrow> False)
      | _ \<Rightarrow> False)"

definition isEqual :: "heap \<Rightarrow> jsval \<Rightarrow> jsval \<Rightarrow> bool" where
  "isEqual h a b = baseIsEqual (length h) h a b"

section \<open>The Site model\<close>

text \<open>
  What the code does to the world outside the store is recorded in logs: the events the
  site emits (\<open>this.emit\<close>), the notices shown (\<open>notices.error\<close>), the calls of
  \<open>wpcom.undocumented().settings\<close> with their arguments before the handler, and the calls of
  the callback handed to \<open>saveSettings\<close>. The listeners of an event and the callback are
  the caller's code; the model records that they were called and does not run them.
  \<open>clock\<close> is what \<open>new Date().getTime()\<close> reads.
\<close>

text \<open>
  A notice is the message handed to \<open>i18n.translate\<close> and, where the code gives options,
  the button label and the two operands of the \<open>+\<close> that forms \<open>href\<close>.
\<close>

record notice =
  message :: string
  button :: "string option"
  href :: "(jsval \<times> string) option"

record world =
  heap :: heap
  emitted :: "(addr \<times> string) list"
  notices :: "notice list"
  requests :: "jsval list list"
  callbacks :: "(jsval \<times> jsval) list"
  clock :: int

text \<open>
  \<open>getAttributes\<close> (./computed-attributes) is not among the sources. It is a parameter
  \<open>ga\<close>: for the store and the site's address it gives the own properties of the object it
  returns, and it is taken to read only.
\<close>

type_synonym computed = "heap \<Rightarrow> addr \<Rightarrow> (string \<times> jsval) list"

text \<open>\<open>Object.assign( this, getAttributes( this ) )\<close>\<close>

definition updateComputedAttributes :: "computed \<Rightarrow> heap \<Rightarrow> addr \<Rightarrow> heap" where
  "updateComputedAttributes ga h self = foldl (\<lambda>h' kv. putOwn h' self (fst kv) (snd kv)) h (ga h self)"

text \<open>
  The loop of \<open>Site.prototype.set\<close> over the own keys of \<open>attributes\<close>, carrying the store
  and \<open>changed\<close>. \<open>this[prop]\<close> is read as an own property. Where the site has no own
  property \<open>prop\<close> and inherits one, the code compares with the inherited method, which no
  value of the model equals, and the model compares with \<open>undefined\<close>: the two part only
  for a bag that holds \<open>undefined\<close> under an inherited name, where the code reports a change.
\<close>

fun set_loop :: "addr \<Rightarrow> jsval \<Rightarrow> string list \<Rightarrow> heap \<times> bool \<Rightarrow> heap \<times> bool" where
  "set_loop self attributes [] (h, changed) = (h, changed)"
| "set_loop self attributes (prop # rest) (h, changed) =
     (if \<not> isEqual h (getOwn h attributes prop) (getOwn h (JRef self) prop) then
        set_loop self attributes rest
          (if getOwn h attributes prop = JUndefined then deleteOwn h self prop
           else putOwn h self prop (getOwn h attributes prop), True)
      else set_loop self attributes rest (h, changed))"

definition set_attrs :: "computed \<Rightarrow> world \<Rightarrow> addr \<Rightarrow> jsval \<Rightarrow> world \<times> bool" where
  "set_attrs ga w self attributes =
     (let (h1, changed) = set_loop self attributes (ownKeys (heap w) attributes) (heap w, False);
          h2 = updateComputedAttributes ga h1 self
      in (w\<lparr>heap := h2,
             emitted := (if changed then emitted w @ [(self, ''change'')] else emitted w)\<rparr>,
          changed))"


subsection \<open>Fetching the settings\<close>

definition notify :: "world \<Rightarrow> notice \<Rightarrow> world" where
  "notify w n = w\<lparr>notices := notices w @ [n]\<rparr>"

definition andThen :: "error + 'a \<Rightarrow> ('a \<Rightarrow> error + 'b) \<Rightarrow> error + 'b" where
  "andThen m f = (case m of Inl e \<Rightarrow> Inl e | Inr x \<Rightarrow> f x)"

text \<open>
  \<open>settingsErrorHandler( error, site )\<close>. The \<open>switch\<close> compares with \<open>===\<close>, so only the
  numbers 0, 400, 401 and 403 are matched; any other status shows nothing.
\<close>

definition settingsErrorHandler :: "world \<Rightarrow> jsval \<Rightarrow> addr \<Rightarrow> error + world" where
  "settingsErrorHandler w error site =
     (let options = getOwn (heap w) (JRef site) ''options'';
          adminURL = (if truthy options then getOwn (heap w) options ''admin_url'' else JStr [])
      in andThen (getProp (heap w) error ''statusCode'') (\<lambda>statusCode.
           if statusCode = JNum 0 then
             Inr (notify w \<lparr>message = ''There was an error retrieving your site settings. Please check your internet connection.'',
                            button = None, href = None\<rparr>)
           else if statusCode = JNum 400 then
             Inr (notify w \<lparr>message = ''There was an error retrieving your site settings.'',
                            button = Some ''Make sure your Jetpack is up to date'',
                            href = Some (adminURL, ''plugins.php?plugin_status=upgrade'')\<rparr>)
           else if statusCode = JNum 401 then
             Inr (notify w \<lparr>message = ''You must be logged in to manage site settings.'',
                            button = None, href = None\<rparr>)
           else if statusCode = JNum 403 then
             Inr (notify w \<lparr>message = ''You are not authorized to manage settings for this site.'',
                            button = None, href = None\<rparr>)
           else Inr w))"

text \<open>
  \<open>Site.prototype.fetchSettings\<close> up to the call of \<open>wpcom.undocumented().settings\<close>: the
  object literal \<open>{ fetchingSettings: true }\<close> is a new object of the store.
\<close>

definition fetchSettings :: "computed \<Rightarrow> world \<Rightarrow> addr \<Rightarrow> jsval \<Rightarrow> world" where
  "fetchSettings ga w self siteID =
     (let thisID = getOwn (heap w) (JRef self) ''ID'';
          requestID = (if truthy thisID then thisID else siteID);
          (h0, literal) = alloc (heap w) (plain [(''fetchingSettings'', JBool True)]);
          (w1, changed) = set_attrs ga (w\<lparr>heap := h0\<rparr>) self (JRef literal)
      in w1\<lparr>requests := requests w1 @ [[requestID]]\<rparr>)"

text \<open>The handler \<open>function( error, data )\<close> that \<open>fetchSettings\<close> hands to the request.\<close>

definition fetchSettings_callback :: "computed \<Rightarrow> world \<Rightarrow> addr \<Rightarrow> jsval \<Rightarrow> jsval \<Rightarrow> error + world" where
  "fetchSettings_callback ga w self error data =
     (if truthy error then settingsErrorHandler w error self
      else
        andThen (setProp (heap w) data ''latestSettings'' (JNum (clock w))) (\<lambda>h1.
        andThen (setProp h1 data ''fetchingSettings'' (JBool False)) (\<lambda>h2.
        Inr (fst (set_attrs ga (w\<lparr>heap := h2\<rparr>) self data)))))"

text \<open>
  A fetch that is answered: \<open>fetchSettings\<close> is called, the clock moves on by \<open>elapsed\<close>
  milliseconds while the request is under way, and the handler runs with the answer.
\<close>

definition tick :: "int \<Rightarrow> world \<Rightarrow> world" where
  "tick elapsed w = w\<lparr>clock := clock w + elapsed\<rparr>"

definition fetchSettings_answered ::
  "computed \<Rightarrow> world \<Rightarrow> addr \<Rightarrow> jsval \<Rightarrow> int \<Rightarrow> jsval \<Rightarrow> jsval \<Rightarrow> error + world" where
  "fetchSettings_answered ga w self siteID elapsed error data =
     fetchSettings_callback ga (tick elapsed (fetchSettings ga w self siteID)) self error data"

subsection \<open>Saving the settings\<close>

text \<open>\<open>s.split( c )\<close> for a one-character separator: the pieces between the separators.\<close>

fun splitOn :: "char \<Rightarrow> string \<Rightarrow> string list" where
  "splitOn c [] = [[]]"
| "splitOn c (x # xs) =
     (if x = c then [] # splitOn c xs
      else case splitOn c xs of
             [] \<Rightarrow> [[x]]
           | piece # pieces \<Rightarrow> (x # piece) # pieces)"

definition newline :: char where
  "newline = CHR 0x0A"

text \<open>lodash's \<open>omit( object, key )\<close>: a new plain object with the other properties.\<close>

definition omit :: "heap \<Rightarrow> jsval \<Rightarrow> string \<Rightarrow> hobj" where
  "omit h v key = plain (filter (\<lambda>kv. fst kv \<noteq> key) (ownProps h v))"

text \<open>
  \<open>Site.prototype.saveSettings\<close> up to the call of \<open>wpcom.undocumented().settings\<close>. It
  gives the world after the call and the value the variable \<open>newSettings\<close> holds from then
  on, which the handler's closure reads.
\<close>

definition saveSettings :: "world \<Rightarrow> addr \<Rightarrow> jsval \<Rightarrow> error + (world \<times> jsval)" where
  "saveSettings w self newSettings =
     andThen (getProp (heap w) newSettings ''whitelistString'') (\<lambda>whitelistString.
       andThen
         (case whitelistString of
            JStr s \<Rightarrow>
              (let (h1, pieces) = alloc (heap w) (array (map JStr (splitOn newline s)))
               in andThen (setProp h1 newSettings ''jetpack_protect_whitelist'' (JRef pieces)) (\<lambda>h2.
                    let (h3, copy) = alloc h2 (omit h2 newSettings ''whitelistString'')
                    in Inr (h3, JRef copy)))
          | _ \<Rightarrow> Inr (heap w, newSettings))
         (\<lambda>(h, sent).
            Inr (w\<lparr>heap := h,
                   requests := requests w @ [[getOwn h (JRef self) ''ID'', JStr ''post'', sent]]\<rparr>,
                 sent)))"






subsection \<open>Notions used in the statements\<close>

text \<open>\<open>pieces.join( c )\<close>, to say what the pieces of \<open>splitOn\<close> are.\<close>

fun joinWith :: "char \<Rightarrow> string list \<Rightarrow> string" where
  "joinWith c [] = []"
| "joinWith c [p] = p"
| "joinWith c (p # q # ps) = p @ c # joinWith c (q # ps)"

text \<open>
  One pass of the loop of \<open>reflectSavedSettings\<close> when \<open>newSettings\<close> and \<open>settings\<close> are
  objects (at \<open>ns\<close> and \<open>sa\<close>), so that nothing throws; used to state what the loop does.
\<close>

definition reflect_step :: "addr \<Rightarrow> jsval \<Rightarrow> addr \<Rightarrow> addr \<Rightarrow> heap \<Rightarrow> string \<Rightarrow> heap" where
  "reflect_step ns savedSettings sa updatedAttributes h key =
     (let h1 = (if key = ''blogname''
                then putOwn h updatedAttributes ''name'' (getOwn h (JRef ns) ''blogname'') else h);
          h2 = (if key = ''blogdescription''
                then putOwn h1 updatedAttributes ''description'' (getOwn h1 (JRef ns) ''blogdescription'')
                else h1)
      in putOwn h2 sa key (getOwn h2 savedSettings key))"

text \<open>
  What one key of the site holds after the loop of \<open>set\<close> when the bag gives it the
  primitive \<open>v\<close> and it held \<open>old\<close> before (\<open>None\<close>: no such key): \<open>undefined\<close> removes
  the key unless it already reads \<open>undefined\<close>, any other primitive is what the key holds
  afterwards.
\<close>

definition stored :: "jsval \<Rightarrow> jsval option \<Rightarrow> jsval option" where
  "stored v old = (if v = JUndefined then (if old = Some JUndefined then old else None) else Some v)"

text \<open>
  The keys under which an own property is in the way of what \<open>set\<close> relies on:
  \<open>attributes.hasOwnProperty( prop )\<close> is called on the bag, \<open>this.updateComputedAttributes()\<close>
  and \<open>this.emit( 'change' )\<close> on the site, a further call of \<open>set\<close> needs \<open>this.set\<close>, and
  an assignment to \<open>__proto__\<close> goes to the inherited accessor and stores no property. A bag
  with such a key makes the code throw a TypeError, or miss the assignment, where the model
  goes on; the statements on a bag that the caller or the server chooses are for bags
  without these keys, on a site that has its methods (\<open>intact\<close>).
\<close>

definition reservedKeys :: "string list" where
  "reservedKeys = [''hasOwnProperty'', ''__proto__'', ''set'', ''updateComputedAttributes'', ''emit'']"

text \<open>
  The site has its methods: none of the reserved keys is an own property of the site or a
  computed attribute.
\<close>

definition intact :: "computed \<Rightarrow> heap \<Rightarrow> addr \<Rightarrow> bool" where
  "intact ga h self =
     (\<forall>m\<in>set reservedKeys. m \<notin> set (ownKeys h (JRef self)) \<and> (\<forall>h'. m \<notin> fst ` set (ga h' self)))"

text \<open>
  Plain data, as \<open>JSON.parse\<close> and object literals of data give it: a primitive, or an
  object of the store whose properties hold plain data in turn, nested at most \<open>n\<close> deep
  and not leading to the site. A comparison of plain data with any value ends before the
  bound of \<open>isEqual\<close> on the depth is met, so that no cycle is run around.
\<close>

primrec plainData :: "nat \<Rightarrow> heap \<Rightarrow> addr \<Rightarrow> jsval \<Rightarrow> bool" where
  "plainData 0 h self v = (\<not> isRef v)"
| "plainData (Suc n) h self v =
     (case v of
        JRef a \<Rightarrow>
          a \<noteq> self \<and>
          (case lookup h a of
             None \<Rightarrow> False
           | Some obj \<Rightarrow> list_all (\<lambda>kv. plainData n h self (snd kv)) (props obj))
      | _ \<Rightarrow> True)"

text \<open>
  The store when the loop of \<open>set\<close> over the bag \<open>attributes\<close>, started in the store \<open>h\<close>,
  reaches the key \<open>k\<close>: the keys before \<open>k\<close> have been dealt with.
\<close>

definition reached :: "addr \<Rightarrow> jsval \<Rightarrow> heap \<Rightarrow> string \<Rightarrow> heap" where
  "reached self attributes h k =
     fst (set_loop self attributes (takeWhile (\<lambda>p. p \<noteq> k) (ownKeys h attributes)) (h, False))"

text \<open>
  The store once the handler of \<open>fetchSettings\<close> has written \<open>latestSettings\<close> (the clock's
  reading \<open>t\<close>) and \<open>fetchingSettings\<close> into the object \<open>data\<close> at \<open>da\<close>, before it calls \<open>set\<close>.
\<close>

definition stamped :: "heap \<Rightarrow> addr \<Rightarrow> int \<Rightarrow> heap" where
  "stamped h da t =
     putOwn (putOwn h da ''latestSettings'' (JNum t)) da ''fetchingSettings'' (JBool False)"

section \<open>The request dispatcher and the ingress/egress router\<close>

text \<open>
  Modelled from the spec: state/data-layer/wpcom-http/utils.js (\<open>getData\<close>, \<open>getError\<close>,
  \<open>getProgress\<close>, \<open>dispatchRequest\<close>, \<open>isHttpIngress\<close>, \<open>isHttpEgress\<close>,
  \<open>processHttpRequest\<close>) and state/action-types are not among the sources; only the test
  suite of the former is. The definitions of this section follow the spec's sections 3, 4.1,
  4.2 and 4.3.

  A message has a type and optional metadata (\<open>meta.dataLayer\<close>) holding one or more of
  \<open>data\<close>, \<open>error\<close> and \<open>progress\<close>.
\<close>

record 'v dataLayer =
  data_field :: "'v option"
  error_field :: "'v option"
  progress_field :: "'v option"

record 'v action =
  actionType :: string
  meta :: "'v dataLayer option"

text \<open>Section 3: metadata, when present, holds one or more of the three fields.\<close>

definition wellFormed :: "'v action \<Rightarrow> bool" where
  "wellFormed a =
     (case meta a of
        None \<Rightarrow> True
      | Some m \<Rightarrow> data_field m \<noteq> None \<or> error_field m \<noteq> None \<or> progress_field m \<noteq> None)"

definition getData :: "'v action \<Rightarrow> 'v option" where
  "getData a = (case meta a of None \<Rightarrow> None | Some m \<Rightarrow> data_field m)"

definition getError :: "'v action \<Rightarrow> 'v option" where
  "getError a = (case meta a of None \<Rightarrow> None | Some m \<Rightarrow> error_field m)"

definition getProgress :: "'v action \<Rightarrow> 'v option" where
  "getProgress a = (case meta a of None \<Rightarrow> None | Some m \<Rightarrow> progress_field m)"

text \<open>
  Section 4.2. A handler is a function of its arguments that changes some state \<open>'s\<close>; the
  dispatcher changes the state as the handler it calls does. Where metadata is present and
  none of the four rules applies, no handler is called.
\<close>

definition dispatchRequest ::
  "('c \<Rightarrow> 'v action \<Rightarrow> 'n \<Rightarrow> 's \<Rightarrow> 's) \<Rightarrow>
   ('c \<Rightarrow> 'v action \<Rightarrow> 'n \<Rightarrow> 'v \<Rightarrow> 's \<Rightarrow> 's) \<Rightarrow>
   ('c \<Rightarrow> 'v action \<Rightarrow> 'n \<Rightarrow> 'v \<Rightarrow> 's \<Rightarrow> 's) \<Rightarrow>
   ('c \<Rightarrow> 'v action \<Rightarrow> 'n \<Rightarrow> 'v \<Rightarrow> 's \<Rightarrow> 's) \<Rightarrow>
   'c \<Rightarrow> 'v action \<Rightarrow> 'n \<Rightarrow> 's \<Rightarrow> 's" where
  "dispatchRequest initiate onSuccess onFailure onProgress store a next =
     (case meta a of
        None \<Rightarrow> initiate store a next
      | Some m \<Rightarrow>
          (case getError a of
             Some e \<Rightarrow> onFailure store a next e
           | None \<Rightarrow>
               (case getProgress a of
                  Some p \<Rightarrow> onProgress store a next p
                | None \<Rightarrow>
                    (case getData a of
                       Some d \<Rightarrow> onSuccess store a next d
                     | None \<Rightarrow> (\<lambda>s. s)))))"

text \<open>
  Handlers that only record their call, as the spies of the test suite do: which handler,
  its three arguments and, but for \<open>initiate\<close>, the payload.
\<close>

datatype handler = Initiate | OnSuccess | OnFailure | OnProgress

datatype ('c, 'v, 'n) call = Called handler 'c "'v action" 'n "'v option"

definition spy3 :: "handler \<Rightarrow> 'c \<Rightarrow> 'v action \<Rightarrow> 'n \<Rightarrow> ('c, 'v, 'n) call list \<Rightarrow> ('c, 'v, 'n) call list" where
  "spy3 which store a next calls = calls @ [Called which store a next None]"

definition spy4 :: "handler \<Rightarrow> 'c \<Rightarrow> 'v action \<Rightarrow> 'n \<Rightarrow> 'v \<Rightarrow> ('c, 'v, 'n) call list \<Rightarrow> ('c, 'v, 'n) call list" where
  "spy4 which store a next payload calls = calls @ [Called which store a next (Some payload)]"

definition spyDispatcher :: "'c \<Rightarrow> 'v action \<Rightarrow> 'n \<Rightarrow> ('c, 'v, 'n) call list \<Rightarrow> ('c, 'v, 'n) call list" where
  "spyDispatcher = dispatchRequest (spy3 Initiate) (spy4 OnSuccess) (spy4 OnFailure) (spy4 OnProgress)"

text \<open>
  Section 4.1. The constant of state/action-types is taken to be its own name, as action
  types are.
\<close>

definition WPCOM_HTTP_REQUEST :: string where
  "WPCOM_HTTP_REQUEST = ''WPCOM_HTTP_REQUEST''"

definition isHttpIngress :: "'v action \<Rightarrow> bool" where
  "isHttpIngress a = (actionType a = WPCOM_HTTP_REQUEST)"

definition isHttpEgress :: "'v action \<Rightarrow> bool" where
  "isHttpEgress a = (getData a \<noteq> None \<or> getError a \<noteq> None)"

text \<open>Section 4.3.\<close>

definition processHttpRequest ::
  "('c \<Rightarrow> ('v action \<Rightarrow> 's \<Rightarrow> 's) \<Rightarrow> 'v action \<Rightarrow> 's \<Rightarrow> 's) \<Rightarrow>
   ('c \<Rightarrow> ('v action \<Rightarrow> 's \<Rightarrow> 's) \<Rightarrow> 'v action \<Rightarrow> 's \<Rightarrow> 's) \<Rightarrow>
   'c \<Rightarrow> ('v action \<Rightarrow> 's \<Rightarrow> 's) \<Rightarrow> 'v action \<Rightarrow> 's \<Rightarrow> 's" where
  "processHttpRequest handleIngress handleEgress store next a =
     (if isHttpIngress a then handleIngress store next a
      else if isHttpEgress a then handleEgress store next a
      else next a)"

text \<open>Recording handlers for the router; they do not call \<open>next\<close> themselves.\<close>

datatype ('c, 'v) routed = ToIngress 'c "'v action" | ToEgress 'c "'v action" | ToNext "'v action"

definition spyIngress :: "'c \<Rightarrow> ('v action \<Rightarrow> ('c, 'v) routed list \<Rightarrow> ('c, 'v) routed list) \<Rightarrow> 'v action \<Rightarrow> ('c, 'v) routed list \<Rightarrow> ('c, 'v) routed list" where
  "spyIngress store next a calls = calls @ [ToIngress store a]"

definition spyEgress :: "'c \<Rightarrow> ('v action \<Rightarrow> ('c, 'v) routed list \<Rightarrow> ('c, 'v) routed list) \<Rightarrow> 'v action \<Rightarrow> ('c, 'v) routed list \<Rightarrow> ('c, 'v) routed list" where
  "spyEgress store next a calls = calls @ [ToEgress store a]"

definition spyNext :: "'v action \<Rightarrow> ('c, 'v) routed list \<Rightarrow> ('c, 'v) routed list" where
  "spyNext a calls = calls @ [ToNext a]"

section \<open>Example inputs\<close>

text \<open>A \<open>getAttributes\<close> that derives \<open>title\<close> from \<open>name\<close>.\<close>

definition titleFromName :: computed where
  "titleFromName h self = [(''title'', getOwn h (JRef self) ''name'')]"

text \<open>
  A store with a site at address 0 whose settings are the object at address 1, and the
  objects handed to the site in the examples.
\<close>

definition blog :: world where
  "blog =
     \<lparr>heap =
        [plain [(''ID'', JNum 7), (''name'', JStr ''Blog''), (''title'', JStr ''Blog''),
                (''a'', JNum 5), (''settings'', JRef 1)],
         plain [(''blogdescription'', JStr ''Old''), (''lang_id'', JNum 1)],
         plain [(''a'', JNum 1)],
         plain [(''a'', JUndefined)],
         plain [(''blogdescription'', JStr ''New desc'')],
         plain [(''updated'', JRef 6)],
         plain [(''blogdescription'', JStr ''New desc'')],
         plain [(''statusCode'', JNum 403)],
         plain [(''whitelistString'', JStr (''1.2.3.4'' @ [newline] @ ''5.6.7.8'')), (''x'', JNum 3)],
         plain [(''blogname'', JStr ''Foo''), (''lang_id'', JNum 2)],
         plain [(''updated'', JRef 11)],
         plain [(''lang_id'', JNum 2)],
         plain [(''whitelistString'', JNum 5)],
         plain [(''a'', JNum 5), (''name'', JStr ''Blog'')],
         plain [(''blogname'', JStr ''Foo''), (''settings'', JRef 11)],
         plain [(''blogdescription'', JStr ''Old''), (''lang_id'', JNum 1)],
         plain [(''settings'', JRef 15), (''a'', JNum 5)]],
      emitted = [], notices = [], requests = [], callbacks = [], clock = 1000\<rparr>"


text \<open>The messages of the test suite of the dispatcher and the router.\<close>

type_synonym payload = "(string \<times> jsval) list"

definition noMeta :: "payload dataLayer" where
  "noMeta = \<lparr>data_field = None, error_field = None, progress_field = None\<rparr>"

definition test_data :: payload where
  "test_data = [(''count'', JNum 5)]"

definition test_error :: payload where
  "test_error = [(''message'', JStr ''oh no!'')]"

definition progressInfo :: payload where
  "progressInfo = [(''loaded'', JNum 45), (''total'', JNum 80)]"

definition empty :: "payload action" where
  "empty = \<lparr>actionType = ''REFILL'', meta = None\<rparr>"

definition success :: "payload action" where
  "success = \<lparr>actionType = ''REFILL'', meta = Some (noMeta\<lparr>data_field := Some test_data\<rparr>)\<rparr>"

definition failure :: "payload action" where
  "failure = \<lparr>actionType = ''REFILL'', meta = Some (noMeta\<lparr>error_field := Some test_error\<rparr>)\<rparr>"

definition progress :: "payload action" where
  "progress = \<lparr>actionType = ''REFILL'', meta = Some (noMeta\<lparr>progress_field := Some progressInfo\<rparr>)\<rparr>"

definition both :: "payload action" where
  "both = \<lparr>actionType = ''REFILL'',
           meta = Some (noMeta\<lparr>data_field := Some test_data, error_field := Some test_error\<rparr>)\<rparr>"

definition ingressAction :: "payload action" where
  "ingressAction = \<lparr>actionType = WPCOM_HTTP_REQUEST, meta = None\<rparr>"

definition egressAction :: "payload action" where
  "egressAction = \<lparr>actionType = ''requestRooster'',
                   meta = Some (noMeta\<lparr>data_field := Some [(''0'', JStr ''Astro Chicken'')]\<rparr>)\<rparr>"

definition unrelatedAction :: "payload action" where
  "unrelatedAction = \<lparr>actionType = ''unrelated'', meta = None\<rparr>"


section \<open>Lemmas on the store and on \<open>set\<close>\<close>

lemma length_putOwn [simp]: "length (putOwn h a k x) = length h"
  by (simp add: putOwn_def split: option.splits)

lemma length_deleteOwn [simp]: "length (deleteOwn h a k) = length h"
  by (simp add: deleteOwn_def split: option.splits)

lemma lookup_putOwn_other [simp]: "b \<noteq> a \<Longrightarrow> lookup (putOwn h a k x) b = lookup h b"
  by (simp add: putOwn_def lookup_def split: option.splits)

lemma lookup_deleteOwn_other [simp]: "b \<noteq> a \<Longrightarrow> lookup (deleteOwn h a k) b = lookup h b"
  by (simp add: deleteOwn_def lookup_def split: option.splits)

lemma ownProps_putOwn_other [simp]: "v \<noteq> JRef a \<Longrightarrow> ownProps (putOwn h a k x) v = ownProps h v"
  by (cases v) simp_all

lemma ownProps_deleteOwn_other [simp]: "v \<noteq> JRef a \<Longrightarrow> ownProps (deleteOwn h a k) v = ownProps h v"
  by (cases v) simp_all

lemma getOwn_putOwn_other [simp]: "v \<noteq> JRef a \<Longrightarrow> getOwn (putOwn h a k x) v k' = getOwn h v k'"
  by (simp add: getOwn_def)

lemma getOwn_deleteOwn_other [simp]: "v \<noteq> JRef a \<Longrightarrow> getOwn (deleteOwn h a k) v k' = getOwn h v k'"
  by (simp add: getOwn_def)

lemma getOwn_putOwn_self:
  "a < length h \<Longrightarrow> getOwn (putOwn h a k x) (JRef a) k' = (if k' = k then x else getOwn h (JRef a) k')"
  by (simp add: getOwn_def putOwn_def lookup_def update_conv')

lemma getOwn_deleteOwn_self:
  "getOwn (deleteOwn h a k) (JRef a) k' = (if k' = k then JUndefined else getOwn h (JRef a) k')"
  by (simp add: getOwn_def deleteOwn_def lookup_def delete_conv')

lemma baseIsEqual_refl [simp]: "baseIsEqual n h v v"
  by (cases n) simp_all

lemma isEqual_refl [simp]: "isEqual h v v"
  by (simp add: isEqual_def)

lemma baseIsEqual_prim_left: "\<not> isRef a \<Longrightarrow> baseIsEqual n h a b = (a = b)"
  by (cases n; cases a) auto

lemma baseIsEqual_prim_right: "\<not> isRef b \<Longrightarrow> baseIsEqual n h a b = (a = b)"
  by (cases n; cases a; cases b) auto

lemma isEqual_prim_left: "\<not> isRef a \<Longrightarrow> isEqual h a b = (a = b)"
  by (simp add: isEqual_def baseIsEqual_prim_left)

lemma isEqual_prim_right: "\<not> isRef b \<Longrightarrow> isEqual h a b = (a = b)"
  by (simp add: isEqual_def baseIsEqual_prim_right)

lemma map_of_ownProps_putOwn_self:
  "a < length h \<Longrightarrow> map_of (ownProps (putOwn h a k x) (JRef a)) k' = (if k' = k then Some x else map_of (ownProps h (JRef a)) k')"
  by (simp add: putOwn_def lookup_def update_conv')

lemma map_of_ownProps_deleteOwn_self:
  "map_of (ownProps (deleteOwn h a k) (JRef a)) k' = (if k' = k then None else map_of (ownProps h (JRef a)) k')"
  by (simp add: deleteOwn_def lookup_def delete_conv')

lemma map_of_ownProps_putOwn_invalid:
  "\<not> a < length h \<Longrightarrow> putOwn h a k x = h"
  by (simp add: putOwn_def lookup_def)

lemma set_loop_length [simp]: "length (fst (set_loop self attrs ks (h, c))) = length h"
  by (induction ks arbitrary: h c) simp_all

lemma set_loop_lookup_other: "a \<noteq> self \<Longrightarrow> lookup (fst (set_loop self attrs ks (h, c))) a = lookup h a"
  by (induction ks arbitrary: h c) simp_all

lemma set_loop_noop:
  "\<forall>k\<in>set ks. isEqual h (getOwn h attrs k) (getOwn h (JRef self) k) \<Longrightarrow> set_loop self attrs ks (h, c) = (h, c)"
  by (induction ks) simp_all

lemma set_loop_key_untouched:
  "k \<notin> set ks \<Longrightarrow> map_of (ownProps (fst (set_loop self attrs ks (h, c))) (JRef self)) k = map_of (ownProps h (JRef self)) k"
proof (induction ks arbitrary: h c)
  case Nil
  then show ?case by simp
next
  case (Cons p ps)
  then have "k \<noteq> p" and "k \<notin> set ps" by auto
  then show ?case
    using Cons.IH
    by (cases "self < length h")
       (simp_all add: map_of_ownProps_putOwn_self map_of_ownProps_deleteOwn_self map_of_ownProps_putOwn_invalid del: ownProps.simps)
qed


lemma getOwn_map_of: "getOwn h v k = (case map_of (ownProps h v) k of Some x \<Rightarrow> x | None \<Rightarrow> JUndefined)"
  by (simp add: getOwn_def)

lemma set_loop_prim:
  assumes "attrs \<noteq> JRef self" "self < length h" "k \<in> set ks" "\<not> isRef (getOwn h attrs k)"
  shows "map_of (ownProps (fst (set_loop self attrs ks (h, c))) (JRef self)) k
         = stored (getOwn h attrs k) (map_of (ownProps h (JRef self)) k)"
  using assms
proof (induction ks arbitrary: h c)
  case Nil
  then show ?case by simp
next
  case (Cons p ps)
  let ?v = "getOwn h attrs p"
  let ?cur = "getOwn h (JRef self) p"
  let ?h1 = "if ?v = JUndefined then deleteOwn h self p else putOwn h self p ?v"
  show ?case
  proof (cases "isEqual h ?v ?cur")
    case True
    note eq = this
    show ?thesis
    proof (cases "k \<in> set ps")
      case True
      then show ?thesis using Cons.IH [of h c] Cons.prems eq by simp
    next
      case False
      then have pk: "p = k" using Cons.prems by simp
      have "?v = ?cur" using eq Cons.prems(4) pk by (simp add: isEqual_prim_left)
      then have "map_of (ownProps h (JRef self)) k = stored (getOwn h attrs k) (map_of (ownProps h (JRef self)) k)"
        using pk by (auto simp: stored_def getOwn_map_of split: option.splits simp del: ownProps.simps)
      then show ?thesis using eq False set_loop_key_untouched [OF False, of self attrs h c]
        by (simp del: ownProps.simps)
    qed
  next
    case False
    note neq = this
    have len: "self < length ?h1" using Cons.prems by simp
    have at: "\<And>k'. getOwn ?h1 attrs k' = getOwn h attrs k'" using Cons.prems(1) by simp
    have step: "set_loop self attrs (p # ps) (h, c) = set_loop self attrs ps (?h1, True)"
      using neq by simp
    show ?thesis
    proof (cases "p = k")
      case True
      have m1: "map_of (ownProps ?h1 (JRef self)) k = stored (getOwn h attrs k) (map_of (ownProps h (JRef self)) k)"
        using True neq Cons.prems(2)
        by (auto simp: stored_def map_of_ownProps_putOwn_self map_of_ownProps_deleteOwn_self getOwn_map_of
            split: option.splits simp del: ownProps.simps)
      show ?thesis
      proof (cases "k \<in> set ps")
        case True
        have "map_of (ownProps (fst (set_loop self attrs ps (?h1, True))) (JRef self)) k
              = stored (getOwn ?h1 attrs k) (map_of (ownProps ?h1 (JRef self)) k)"
          using Cons.IH [of ?h1 True] Cons.prems(1) len True Cons.prems(4) at by simp
        also have "\<dots> = stored (getOwn h attrs k) (map_of (ownProps h (JRef self)) k)"
          unfolding at m1 by (simp add: stored_def)
        finally show ?thesis unfolding step .
      next
        case False
        show ?thesis unfolding step using set_loop_key_untouched [OF False, of self attrs ?h1 True] m1
          by (simp del: ownProps.simps)
      qed
    next
      case False
      then have kin: "k \<in> set ps" using Cons.prems by auto
      have m1: "map_of (ownProps ?h1 (JRef self)) k = map_of (ownProps h (JRef self)) k"
        using False Cons.prems(2)
        by (simp add: map_of_ownProps_putOwn_self map_of_ownProps_deleteOwn_self del: ownProps.simps)
      have "map_of (ownProps (fst (set_loop self attrs ps (?h1, True))) (JRef self)) k
              = stored (getOwn ?h1 attrs k) (map_of (ownProps ?h1 (JRef self)) k)"
        using Cons.IH [of ?h1 True] Cons.prems(1) len kin Cons.prems(4) at by simp
      then show ?thesis unfolding step at m1 .
    qed
  qed
qed


lemma foldl_putOwn_length [simp]:
  "length (foldl (\<lambda>h' kv. putOwn h' self (fst kv) (snd kv)) h kvs) = length h"
  by (induction kvs arbitrary: h) simp_all

lemma foldl_putOwn_lookup_other:
  "a \<noteq> self \<Longrightarrow> lookup (foldl (\<lambda>h' kv. putOwn h' self (fst kv) (snd kv)) h kvs) a = lookup h a"
  by (induction kvs arbitrary: h) simp_all

lemma foldl_putOwn_key_untouched:
  "k \<notin> fst ` set kvs \<Longrightarrow>
   map_of (ownProps (foldl (\<lambda>h' kv. putOwn h' self (fst kv) (snd kv)) h kvs) (JRef self)) k
   = map_of (ownProps h (JRef self)) k"
proof (induction kvs arbitrary: h)
  case Nil
  then show ?case by simp
next
  case (Cons kv kvs)
  then show ?case
    by (cases "self < length h")
       (simp_all add: map_of_ownProps_putOwn_self map_of_ownProps_putOwn_invalid del: ownProps.simps)
qed

lemma updateComputedAttributes_length [simp]: "length (updateComputedAttributes ga h self) = length h"
  by (simp add: updateComputedAttributes_def)

lemma updateComputedAttributes_lookup_other:
  "a \<noteq> self \<Longrightarrow> lookup (updateComputedAttributes ga h self) a = lookup h a"
  by (simp add: updateComputedAttributes_def foldl_putOwn_lookup_other)

lemma updateComputedAttributes_key_untouched:
  "k \<notin> fst ` set (ga h self) \<Longrightarrow>
   map_of (ownProps (updateComputedAttributes ga h self) (JRef self)) k = map_of (ownProps h (JRef self)) k"
  by (simp add: updateComputedAttributes_def foldl_putOwn_key_untouched del: ownProps.simps)

lemma ownProps_lookup_cong: "lookup h' a = lookup h a \<Longrightarrow> ownProps h' (JRef a) = ownProps h (JRef a)"
  by simp

lemma ownProps_prim: "\<not> isRef v \<Longrightarrow> ownProps h' v = ownProps h v"
  by (cases v) simp_all

text \<open>A value other than the site reads the same after the loop, and after rederiving.\<close>

lemma set_loop_ownProps_other:
  "v \<noteq> JRef self \<Longrightarrow> ownProps (fst (set_loop self attrs ks (h, c))) v = ownProps h v"
  by (cases v) (simp_all add: set_loop_lookup_other)

lemma updateComputedAttributes_ownProps_other:
  "v \<noteq> JRef self \<Longrightarrow> ownProps (updateComputedAttributes ga h self) v = ownProps h v"
  by (cases v) (simp_all add: updateComputedAttributes_lookup_other)

lemma set_attrs_noop:
  assumes "\<forall>k\<in>set (ownKeys (heap w) attributes).
             isEqual (heap w) (getOwn (heap w) attributes k) (getOwn (heap w) (JRef self) k)"
  shows "set_attrs ga w self attributes = (w\<lparr>heap := updateComputedAttributes ga (heap w) self\<rparr>, False)"
  using set_loop_noop [OF assms, of False] by (simp add: set_attrs_def)

lemma stored_get: "\<not> isRef v \<Longrightarrow> (case stored v old of Some x \<Rightarrow> x | None \<Rightarrow> JUndefined) = v"
  by (auto simp: stored_def)

text \<open>After \<open>set\<close>, a key of the bag that holds a primitive and is not a computed one reads that primitive.\<close>

lemma set_attrs_prim:
  assumes "attrs \<noteq> JRef self" "self < length (heap w)" "k \<in> set (ownKeys (heap w) attrs)"
    "\<not> isRef (getOwn (heap w) attrs k)" "\<forall>h. k \<notin> fst ` set (ga h self)"
  shows "map_of (ownProps (heap (fst (set_attrs ga w self attrs))) (JRef self)) k
         = stored (getOwn (heap w) attrs k) (map_of (ownProps (heap w) (JRef self)) k)"
proof -
  obtain h1 c where l: "set_loop self attrs (ownKeys (heap w) attrs) (heap w, False) = (h1, c)"
    by (cases "set_loop self attrs (ownKeys (heap w) attrs) (heap w, False)")
  have "map_of (ownProps h1 (JRef self)) k = stored (getOwn (heap w) attrs k) (map_of (ownProps (heap w) (JRef self)) k)"
    using set_loop_prim [OF assms(1-4), of False] l by simp
  moreover have "map_of (ownProps (updateComputedAttributes ga h1 self) (JRef self)) k = map_of (ownProps h1 (JRef self)) k"
    using assms(5) by (intro updateComputedAttributes_key_untouched) simp
  ultimately show ?thesis using l by (simp add: set_attrs_def del: ownProps.simps)
qed

lemma set_attrs_ownProps_other:
  "v \<noteq> JRef self \<Longrightarrow> ownProps (heap (fst (set_attrs ga w self attrs))) v = ownProps (heap w) v"
  by (simp add: set_attrs_def split: prod.splits add: updateComputedAttributes_ownProps_other del: ownProps.simps)
     (metis set_loop_ownProps_other fst_conv)


lemma set_attrs_changed:
  "snd (set_attrs ga w self attrs) = snd (set_loop self attrs (ownKeys (heap w) attrs) (heap w, False))"
  by (simp add: set_attrs_def split: prod.splits)



section \<open>Lemmas on \<open>fetchSettings\<close>\<close>

lemma lookup_append_old: "a < length h \<Longrightarrow> lookup (h @ [obj]) a = lookup h a"
  by (simp add: lookup_def nth_append)

lemma lookup_append_new: "lookup (h @ [obj]) (length h) = Some obj"
  by (simp add: lookup_def)

lemma ownProps_append_old: "a < length h \<Longrightarrow> ownProps (h @ [obj]) (JRef a) = ownProps h (JRef a)"
  by (simp add: lookup_append_old)

lemma getOwn_Some_valid: "getOwn h (JRef a) k \<noteq> JUndefined \<Longrightarrow> a < length h"
  by (auto simp: getOwn_def lookup_def split: if_splits)


text \<open>The same facts for \<open>set\<close> as a whole, for a key that is not a computed attribute.\<close>

lemma set_attrs_heap:
  "heap (fst (set_attrs ga w self attrs))
   = updateComputedAttributes ga (fst (set_loop self attrs (ownKeys (heap w) attrs) (heap w, False))) self"
  by (simp add: set_attrs_def split: prod.splits)

lemma set_attrs_length [simp]: "length (heap (fst (set_attrs ga w self attrs))) = length (heap w)"
  by (simp add: set_attrs_heap)

lemma set_attrs_lookup_other:
  "a \<noteq> self \<Longrightarrow> lookup (heap (fst (set_attrs ga w self attrs))) a = lookup (heap w) a"
  by (simp add: set_attrs_heap updateComputedAttributes_lookup_other set_loop_lookup_other)

lemma set_attrs_key_untouched:
  assumes "k \<notin> set (ownKeys (heap w) attrs)" "\<forall>h. k \<notin> fst ` set (ga h self)"
  shows "map_of (ownProps (heap (fst (set_attrs ga w self attrs))) (JRef self)) k
         = map_of (ownProps (heap w) (JRef self)) k"
  using assms
  by (simp add: set_attrs_heap updateComputedAttributes_key_untouched set_loop_key_untouched
      del: ownProps.simps)


lemma set_attrs_other_fields [simp]:
  "notices (fst (set_attrs ga w self attrs)) = notices w"
  "requests (fst (set_attrs ga w self attrs)) = requests w"
  "callbacks (fst (set_attrs ga w self attrs)) = callbacks w"
  "clock (fst (set_attrs ga w self attrs)) = clock w"
  by (simp_all add: set_attrs_def split: prod.splits)

lemma fetchSettings_eq:
  "fetchSettings ga w self siteID =
     (fst (set_attrs ga (w\<lparr>heap := heap w @ [plain [(''fetchingSettings'', JBool True)]]\<rparr>) self
             (JRef (length (heap w)))))
     \<lparr>requests := requests w @
        [[if truthy (getOwn (heap w) (JRef self) ''ID'') then getOwn (heap w) (JRef self) ''ID'' else siteID]]\<rparr>"
  by (simp add: fetchSettings_def alloc_def Let_def case_prod_beta)

lemma fetchSettings_fields [simp]:
  "notices (fetchSettings ga w self siteID) = notices w"
  "callbacks (fetchSettings ga w self siteID) = callbacks w"
  "clock (fetchSettings ga w self siteID) = clock w"
  "length (heap (fetchSettings ga w self siteID)) = Suc (length (heap w))"
  by (simp_all add: fetchSettings_eq)

lemma fetchSettings_lookup_other:
  "a < length (heap w) \<Longrightarrow> a \<noteq> self \<Longrightarrow> lookup (heap (fetchSettings ga w self siteID)) a = lookup (heap w) a"
  by (simp add: fetchSettings_eq set_attrs_lookup_other lookup_append_old)

lemma fetchSettings_key_untouched:
  assumes "self < length (heap w)" "k \<noteq> ''fetchingSettings''" "\<forall>h. k \<notin> fst ` set (ga h self)"
  shows "map_of (ownProps (heap (fetchSettings ga w self siteID)) (JRef self)) k
         = map_of (ownProps (heap w) (JRef self)) k"
proof -
  let ?w0 = "w\<lparr>heap := heap w @ [plain [(''fetchingSettings'', JBool True)]]\<rparr>"
  have "k \<notin> set (ownKeys (heap ?w0) (JRef (length (heap w))))"
    using assms(2) by (simp add: ownKeys_def lookup_append_new plain_def)
  then have "map_of (ownProps (heap (fst (set_attrs ga ?w0 self (JRef (length (heap w)))))) (JRef self)) k
             = map_of (ownProps (heap ?w0) (JRef self)) k"
    using assms(3) by (rule set_attrs_key_untouched)
  also have "\<dots> = map_of (ownProps (heap w) (JRef self)) k"
    using assms(1) by (simp add: lookup_append_old)
  finally show ?thesis by (simp add: fetchSettings_eq del: ownProps.simps)
qed

lemma fetchSettings_flag:
  assumes "self < length (heap w)" "\<forall>h. ''fetchingSettings'' \<notin> fst ` set (ga h self)"
  shows "getOwn (heap (fetchSettings ga w self siteID)) (JRef self) ''fetchingSettings'' = JBool True"
proof -
  let ?w0 = "w\<lparr>heap := heap w @ [plain [(''fetchingSettings'', JBool True)]]\<rparr>"
  let ?lit = "JRef (length (heap w))"
  have g: "getOwn (heap ?w0) ?lit ''fetchingSettings'' = JBool True"
    by (simp add: getOwn_def lookup_append_new plain_def)
  have k: "''fetchingSettings'' \<in> set (ownKeys (heap ?w0) ?lit)"
    by (simp add: ownKeys_def lookup_append_new plain_def)
  have p: "\<not> isRef (getOwn (heap ?w0) ?lit ''fetchingSettings'')"
    unfolding g by simp
  have d: "?lit \<noteq> JRef self" "self < length (heap ?w0)"
    using assms(1) by simp_all
  have "map_of (ownProps (heap (fst (set_attrs ga ?w0 self ?lit))) (JRef self)) ''fetchingSettings''
        = stored (getOwn (heap ?w0) ?lit ''fetchingSettings'') (map_of (ownProps (heap ?w0) (JRef self)) ''fetchingSettings'')"
    using d k p assms(2) by (rule set_attrs_prim)
  then have "map_of (ownProps (heap (fst (set_attrs ga ?w0 self ?lit))) (JRef self)) ''fetchingSettings''
        = Some (JBool True)"
    unfolding g by (simp add: stored_def)
  then show ?thesis
    by (simp add: fetchSettings_eq getOwn_def del: ownProps.simps)
qed

lemma ownKeys_putOwn_self:
  "a < length h \<Longrightarrow> set (ownKeys (putOwn h a k x) (JRef a)) = insert k (set (ownKeys h (JRef a)))"
  by (simp add: ownKeys_def putOwn_def lookup_def dom_update)

lemma ownKeys_cong: "ownProps h' v = ownProps h v \<Longrightarrow> ownKeys h' v = ownKeys h v"
  by (simp add: ownKeys_def)

lemma getOwn_cong: "ownProps h' v = ownProps h v \<Longrightarrow> getOwn h' v k = getOwn h v k"
  by (simp add: getOwn_def)

lemma getOwn_Some: "map_of (ownProps h v) k = Some x \<Longrightarrow> getOwn h v k = x"
  by (simp add: getOwn_def)

lemma tick_fields [simp]:
  "heap (tick d w) = heap w" "clock (tick d w) = clock w + d" "notices (tick d w) = notices w"
  "emitted (tick d w) = emitted w" "requests (tick d w) = requests w" "callbacks (tick d w) = callbacks w"
  by (simp_all add: tick_def)

lemma fetchSettings_callback_success:
  assumes "\<not> truthy error"
  shows "fetchSettings_callback ga w self error (JRef da) =
     Inr (fst (set_attrs ga
        (w\<lparr>heap := putOwn (putOwn (heap w) da ''latestSettings'' (JNum (clock w))) da ''fetchingSettings'' (JBool False)\<rparr>)
        self (JRef da)))"
  using assms by (simp add: fetchSettings_callback_def andThen_def)


section \<open>What the loop of \<open>set\<close> does at one key\<close>

lemma plainData_ref:
  "0 < n \<Longrightarrow> plainData n h self (JRef a) \<Longrightarrow> a \<noteq> self \<and> a < length h"
  by (cases n) (auto simp: lookup_def split: option.splits if_splits)

lemma putOwn_same:
  "getOwn h (JRef a) k = x \<Longrightarrow> x \<noteq> JUndefined \<Longrightarrow> putOwn h a k x = h"
  by (auto simp: getOwn_def putOwn_def lookup_def update_triv split: option.splits if_splits)

lemma set_loop_at_key:
  assumes "attrs \<noteq> JRef self" "self < length h" "k \<in> set ks" "distinct ks"
  shows "map_of (ownProps (fst (set_loop self attrs ks (h, c))) (JRef self)) k
         = (if isEqual (fst (set_loop self attrs (takeWhile (\<lambda>p. p \<noteq> k) ks) (h, c)))
                  (getOwn h attrs k) (getOwn h (JRef self) k)
            then map_of (ownProps h (JRef self)) k
            else if getOwn h attrs k = JUndefined then None else Some (getOwn h attrs k))"
  using assms
proof (induction ks arbitrary: h c)
  case Nil
  then show ?case by simp
next
  case (Cons p ps)
  let ?v = "getOwn h attrs p"
  let ?cur = "getOwn h (JRef self) p"
  let ?h1 = "if ?v = JUndefined then deleteOwn h self p else putOwn h self p ?v"
  show ?case
  proof (cases "p = k")
    case True
    then have out: "k \<notin> set ps" using Cons.prems by simp
    have tw: "fst (set_loop self attrs (takeWhile (\<lambda>p. p \<noteq> k) (p # ps)) (h, c)) = h"
      using True by simp
    show ?thesis
    proof (cases "isEqual h (getOwn h attrs k) (getOwn h (JRef self) k)")
      case eq: True
      then have step: "set_loop self attrs (p # ps) (h, c) = set_loop self attrs ps (h, c)"
        using True by simp
      show ?thesis unfolding step tw
        using eq set_loop_key_untouched [OF out, of self attrs h c] by (simp del: ownProps.simps)
    next
      case neq: False
      let ?h2 = "if getOwn h attrs k = JUndefined then deleteOwn h self k
                 else putOwn h self k (getOwn h attrs k)"
      have step: "set_loop self attrs (p # ps) (h, c) = set_loop self attrs ps (?h2, True)"
        using True neq by simp
      have m1: "map_of (ownProps ?h2 (JRef self)) k
                = (if getOwn h attrs k = JUndefined then None else Some (getOwn h attrs k))"
        using Cons.prems(2)
        by (simp add: map_of_ownProps_putOwn_self map_of_ownProps_deleteOwn_self del: ownProps.simps)
      have "map_of (ownProps (fst (set_loop self attrs ps (?h2, True))) (JRef self)) k
            = (if getOwn h attrs k = JUndefined then None else Some (getOwn h attrs k))"
        using set_loop_key_untouched [OF out, of self attrs ?h2 True] unfolding m1 .
      then show ?thesis unfolding step tw using neq by (simp del: ownProps.simps)
    qed
  next
    case False
    then have kin: "k \<in> set ps" and dist: "distinct ps" using Cons.prems by auto
    obtain h' c' where step: "set_loop self attrs [p] (h, c) = (h', c')"
      by (cases "set_loop self attrs [p] (h, c)")
    have h': "h' = (if isEqual h ?v ?cur then h else ?h1)"
      using step by (cases "isEqual h ?v ?cur") auto
    have len: "self < length h'" using Cons.prems(2) h' by simp
    have at: "getOwn h' attrs k = getOwn h attrs k" using Cons.prems(1) h' by simp
    have m1: "map_of (ownProps h' (JRef self)) k = map_of (ownProps h (JRef self)) k"
      using False Cons.prems(2) h'
      by (simp add: map_of_ownProps_putOwn_self map_of_ownProps_deleteOwn_self del: ownProps.simps)
    then have g1: "getOwn h' (JRef self) k = getOwn h (JRef self) k"
      by (simp add: getOwn_map_of del: ownProps.simps)
    have s1: "set_loop self attrs (p # ps) (h, c) = set_loop self attrs ps (h', c')"
      using step by (cases "isEqual h ?v ?cur") auto
    have s2: "set_loop self attrs (takeWhile (\<lambda>p. p \<noteq> k) (p # ps)) (h, c)
              = set_loop self attrs (takeWhile (\<lambda>p. p \<noteq> k) ps) (h', c')"
      using step False by (cases "isEqual h ?v ?cur") auto
    show ?thesis
      unfolding s1 s2 using Cons.IH [OF Cons.prems(1) len kin dist, of c'] unfolding at m1 g1 .
  qed
qed

lemma set_attrs_at_key:
  assumes "attrs \<noteq> JRef self" "self < length (heap w)" "k \<in> set (ownKeys (heap w) attrs)"
    "distinct (ownKeys (heap w) attrs)" "\<forall>h. k \<notin> fst ` set (ga h self)"
  shows "map_of (ownProps (heap (fst (set_attrs ga w self attrs))) (JRef self)) k
         = (if isEqual (reached self attrs (heap w) k) (getOwn (heap w) attrs k) (getOwn (heap w) (JRef self) k)
            then map_of (ownProps (heap w) (JRef self)) k
            else if getOwn (heap w) attrs k = JUndefined then None else Some (getOwn (heap w) attrs k))"
  using set_loop_at_key [OF assms(1-4), of False] assms(5)
  by (simp add: set_attrs_heap updateComputedAttributes_key_untouched reached_def del: ownProps.simps)

lemma getOwn_at_key:
  assumes "map_of (ownProps h' v) k
         = (if e then map_of (ownProps h v) k else if x = JUndefined then None else Some x)"
  shows "getOwn h' v k = (if e then getOwn h v k else x)"
  using assms by (simp add: getOwn_def del: ownProps.simps)

lemma distinct_ownKeys_putOwn:
  "distinct (ownKeys h (JRef a)) \<Longrightarrow> distinct (ownKeys (putOwn h a k x) (JRef a))"
  by (auto simp: ownKeys_def putOwn_def lookup_def distinct_update split: option.splits)


lemma distinct_ownKeys_stamped:
  "distinct (ownKeys h (JRef da)) \<Longrightarrow> distinct (ownKeys (stamped h da t) (JRef da))"
  by (simp add: stamped_def distinct_ownKeys_putOwn)

text \<open>The store that \<open>fetchSettings\<close> leaves: the flag is set and the computed attributes are rederived.\<close>

lemma fetchSettings_heap:
  assumes "self < length (heap w)"
  shows "heap (fetchSettings ga w self siteID)
         = updateComputedAttributes ga
             (putOwn (heap w @ [plain [(''fetchingSettings'', JBool True)]]) self ''fetchingSettings'' (JBool True))
             self"
proof -
  let ?h0 = "heap w @ [plain [(''fetchingSettings'', JBool True)]]"
  let ?lit = "JRef (length (heap w))"
  have k: "ownKeys ?h0 ?lit = [''fetchingSettings'']"
    by (simp add: ownKeys_def lookup_append_new plain_def)
  have g: "getOwn ?h0 ?lit ''fetchingSettings'' = JBool True"
    by (simp add: getOwn_def lookup_append_new plain_def)
  have "fst (set_loop self ?lit [''fetchingSettings''] (?h0, False))
        = putOwn ?h0 self ''fetchingSettings'' (JBool True)"
  proof (cases "getOwn ?h0 (JRef self) ''fetchingSettings'' = JBool True")
    case True
    then have "putOwn ?h0 self ''fetchingSettings'' (JBool True) = ?h0"
      by (rule putOwn_same) simp
    then show ?thesis using True by (simp add: g)
  next
    case False
    then have "\<not> isEqual ?h0 (JBool True) (getOwn ?h0 (JRef self) ''fetchingSettings'')"
      by (auto simp: isEqual_prim_left)
    then show ?thesis by (simp add: g)
  qed
  then show ?thesis
    by (simp add: fetchSettings_eq set_attrs_heap k)
qed

text \<open>The handler of \<open>fetchSettings\<close> on a successful answer, in any world.\<close>

lemma fetchSettings_callback_merges:
  assumes self: "self < length (heap w)" and da: "da < length (heap w)" and ne: "da \<noteq> self"
    and ok: "\<not> truthy error" and dist: "distinct (ownKeys (heap w) (JRef da))"
  shows "\<exists>w'. fetchSettings_callback ga w self error (JRef da) = Inr w'
    \<and> ((\<forall>h. ''latestSettings'' \<notin> fst ` set (ga h self)) \<longrightarrow>
          getOwn (heap w') (JRef self) ''latestSettings'' = JNum (clock w))
    \<and> ((\<forall>h. ''fetchingSettings'' \<notin> fst ` set (ga h self)) \<longrightarrow>
          getOwn (heap w') (JRef self) ''fetchingSettings'' = JBool False)
    \<and> (\<forall>k. k \<in> set (ownKeys (heap w) (JRef da)) \<and> k \<noteq> ''latestSettings'' \<and> k \<noteq> ''fetchingSettings''
            \<and> (\<forall>h. k \<notin> fst ` set (ga h self)) \<longrightarrow>
          getOwn (heap w') (JRef self) k
          = (if isEqual (reached self (JRef da) (stamped (heap w) da (clock w)) k)
                  (getOwn (heap w) (JRef da) k) (getOwn (heap w) (JRef self) k)
             then getOwn (heap w) (JRef self) k else getOwn (heap w) (JRef da) k))
    \<and> (\<forall>k. k \<notin> set (ownKeys (heap w) (JRef da)) \<and> k \<noteq> ''latestSettings'' \<and> k \<noteq> ''fetchingSettings''
            \<and> (\<forall>h. k \<notin> fst ` set (ga h self)) \<longrightarrow>
          map_of (ownProps (heap w') (JRef self)) k = map_of (ownProps (heap w) (JRef self)) k)
    \<and> (\<forall>a. a \<noteq> self \<and> a \<noteq> da \<longrightarrow> lookup (heap w') a = lookup (heap w) a)"
proof -
  let ?h1 = "putOwn (heap w) da ''latestSettings'' (JNum (clock w))"
  let ?h2 = "putOwn ?h1 da ''fetchingSettings'' (JBool False)"
  let ?w2 = "w\<lparr>heap := ?h2\<rparr>"
  let ?w' = "fst (set_attrs ga ?w2 self (JRef da))"
  have st: "stamped (heap w) da (clock w) = ?h2" by (simp add: stamped_def)
  have res: "fetchSettings_callback ga w self error (JRef da) = Inr ?w'"
    using ok by (rule fetchSettings_callback_success)
  have d: "JRef da \<noteq> JRef self" "self < length (heap ?w2)" using self ne by simp_all
  have selfp: "ownProps ?h2 (JRef self) = ownProps (heap w) (JRef self)"
    using ne by (simp del: ownProps.simps)
  have keys: "set (ownKeys ?h2 (JRef da))
              = insert ''fetchingSettings'' (insert ''latestSettings'' (set (ownKeys (heap w) (JRef da))))"
    using da by (simp add: ownKeys_putOwn_self)
  have dist2: "distinct (ownKeys (heap ?w2) (JRef da))"
    using distinct_ownKeys_stamped [OF dist, of "clock w"] by (simp add: st)
  have get: "\<And>k. getOwn ?h2 (JRef da) k =
               (if k = ''fetchingSettings'' then JBool False
                else if k = ''latestSettings'' then JNum (clock w) else getOwn (heap w) (JRef da) k)"
    using da by (simp add: getOwn_putOwn_self)
  have latest: "getOwn (heap ?w') (JRef self) ''latestSettings'' = JNum (clock w)"
    if nc: "\<forall>h. ''latestSettings'' \<notin> fst ` set (ga h self)"
  proof -
    have "map_of (ownProps (heap ?w') (JRef self)) ''latestSettings''
          = stored (getOwn (heap ?w2) (JRef da) ''latestSettings'')
                   (map_of (ownProps (heap ?w2) (JRef self)) ''latestSettings'')"
      using d(1) d(2) _ _ nc by (rule set_attrs_prim) (simp_all add: keys get)
    then have "map_of (ownProps (heap ?w') (JRef self)) ''latestSettings'' = Some (JNum (clock w))"
      by (simp add: get stored_def del: ownProps.simps)
    then show ?thesis by (rule getOwn_Some)
  qed
  have flag: "getOwn (heap ?w') (JRef self) ''fetchingSettings'' = JBool False"
    if nc: "\<forall>h. ''fetchingSettings'' \<notin> fst ` set (ga h self)"
  proof -
    have "map_of (ownProps (heap ?w') (JRef self)) ''fetchingSettings''
          = stored (getOwn (heap ?w2) (JRef da) ''fetchingSettings'')
                   (map_of (ownProps (heap ?w2) (JRef self)) ''fetchingSettings'')"
      using d(1) d(2) _ _ nc by (rule set_attrs_prim) (simp_all add: keys get)
    then have "map_of (ownProps (heap ?w') (JRef self)) ''fetchingSettings'' = Some (JBool False)"
      by (simp add: get stored_def del: ownProps.simps)
    then show ?thesis by (rule getOwn_Some)
  qed
  have merged: "getOwn (heap ?w') (JRef self) k
          = (if isEqual (reached self (JRef da) (stamped (heap w) da (clock w)) k)
                  (getOwn (heap w) (JRef da) k) (getOwn (heap w) (JRef self) k)
             then getOwn (heap w) (JRef self) k else getOwn (heap w) (JRef da) k)"
    if kin: "k \<in> set (ownKeys (heap w) (JRef da))" and k1: "k \<noteq> ''latestSettings''"
      and k2: "k \<noteq> ''fetchingSettings''" and nc: "\<forall>h. k \<notin> fst ` set (ga h self)" for k
  proof -
    have kin2: "k \<in> set (ownKeys (heap ?w2) (JRef da))" using kin by (simp add: keys)
    have g: "getOwn (heap ?w2) (JRef da) k = getOwn (heap w) (JRef da) k"
      using k1 k2 by (simp add: get)
    have s: "getOwn (heap ?w2) (JRef self) k = getOwn (heap w) (JRef self) k"
      using selfp by (simp add: getOwn_def del: ownProps.simps)
    have h2: "heap ?w2 = stamped (heap w) da (clock w)" by (simp add: st)
    have "map_of (ownProps (heap ?w') (JRef self)) k
         = (if isEqual (reached self (JRef da) (heap ?w2) k) (getOwn (heap ?w2) (JRef da) k)
                 (getOwn (heap ?w2) (JRef self) k)
            then map_of (ownProps (heap ?w2) (JRef self)) k
            else if getOwn (heap ?w2) (JRef da) k = JUndefined then None
                 else Some (getOwn (heap ?w2) (JRef da) k))"
      using d(1) d(2) kin2 dist2 nc by (rule set_attrs_at_key)
    then have "getOwn (heap ?w') (JRef self) k
         = (if isEqual (reached self (JRef da) (heap ?w2) k) (getOwn (heap ?w2) (JRef da) k)
                 (getOwn (heap ?w2) (JRef self) k)
            then getOwn (heap ?w2) (JRef self) k else getOwn (heap ?w2) (JRef da) k)"
      by (rule getOwn_at_key)
    then have "getOwn (heap ?w') (JRef self) k
         = (if isEqual (reached self (JRef da) (stamped (heap w) da (clock w)) k)
                 (getOwn (heap ?w2) (JRef da) k) (getOwn (heap ?w2) (JRef self) k)
            then getOwn (heap ?w2) (JRef self) k else getOwn (heap ?w2) (JRef da) k)"
      by (simp only: h2)
    then show ?thesis by (simp only: g s)
  qed
  have kept: "map_of (ownProps (heap ?w') (JRef self)) k = map_of (ownProps (heap w) (JRef self)) k"
    if kout: "k \<notin> set (ownKeys (heap w) (JRef da))" and k1: "k \<noteq> ''latestSettings''"
      and k2: "k \<noteq> ''fetchingSettings''" and nc: "\<forall>h. k \<notin> fst ` set (ga h self)" for k
  proof -
    have "k \<notin> set (ownKeys (heap ?w2) (JRef da))" using kout k1 k2 by (simp add: keys)
    then have "map_of (ownProps (heap ?w') (JRef self)) k = map_of (ownProps (heap ?w2) (JRef self)) k"
      using nc by (rule set_attrs_key_untouched)
    then show ?thesis using selfp by (simp del: ownProps.simps)
  qed
  have frame: "lookup (heap ?w') a = lookup (heap w) a" if "a \<noteq> self" "a \<noteq> da" for a
    using that by (simp add: set_attrs_lookup_other)
  show ?thesis
    using res latest flag merged kept frame by blast
qed

section \<open>Lemmas on \<open>saveSettings\<close>\<close>

lemma splitOn_not_Nil [simp]: "splitOn c s \<noteq> []"
  by (induction s) (auto split: list.splits)

lemma joinWith_splitOn: "joinWith c (splitOn c s) = s"
proof (induction s)
  case Nil
  then show ?case by simp
next
  case (Cons x xs)
  obtain p ps where sp: "splitOn c xs = p # ps"
    using splitOn_not_Nil [of c xs] by (cases "splitOn c xs") auto
  show ?case using Cons sp by (cases ps) auto
qed

lemma splitOn_pieces: "p \<in> set (splitOn c s) \<Longrightarrow> c \<notin> set p"
proof (induction s arbitrary: p)
  case Nil
  then show ?case by simp
next
  case (Cons x xs)
  obtain q qs where sp: "splitOn c xs = q # qs"
    using splitOn_not_Nil [of c xs] by (cases "splitOn c xs") auto
  show ?case
  proof (cases "x = c")
    case True
    then show ?thesis using Cons by auto
  next
    case False
    then have "p = x # q \<or> p \<in> set qs" using Cons.prems sp by simp
    then show ?thesis using Cons.IH [of q] Cons.IH [of p] sp False by auto
  qed
qed

lemma omit_keys: "k \<in> fst ` set (props (omit h v key)) \<longleftrightarrow> k \<noteq> key \<and> k \<in> fst ` set (ownProps h v)"
  by (auto simp: omit_def plain_def simp del: ownProps.simps)

lemma map_of_filter_key:
  "k \<noteq> key \<Longrightarrow> map_of (filter (\<lambda>kv. fst kv \<noteq> key) ps) k = map_of ps k"
  by (induction ps) auto

lemma omit_map_of:
  "k \<noteq> key \<Longrightarrow> map_of (props (omit h v key)) k = map_of (ownProps h v) k"
  by (simp add: omit_def plain_def map_of_filter_key del: ownProps.simps)

lemma saveSettings_split:
  assumes "getOwn (heap w) (JRef ns) ''whitelistString'' = JStr s"
  shows "saveSettings w self (JRef ns) =
     (let h1 = heap w @ [array (map JStr (splitOn newline s))];
          h2 = putOwn h1 ns ''jetpack_protect_whitelist'' (JRef (length (heap w)));
          h3 = h2 @ [omit h2 (JRef ns) ''whitelistString'']
      in Inr (w\<lparr>heap := h3,
                requests := requests w @ [[getOwn h3 (JRef self) ''ID'', JStr ''post'', JRef (Suc (length (heap w)))]]\<rparr>,
              JRef (Suc (length (heap w)))))"
  using assms by (simp add: saveSettings_def getProp_def andThen_def alloc_def Let_def)



lemma reflect_step_length [simp]: "length (reflect_step ns u sa ua h key) = length h"
  by (simp add: reflect_step_def Let_def)


lemma reflect_step_ua_kept:
  "key \<noteq> ''blogname'' \<Longrightarrow> key \<noteq> ''blogdescription'' \<Longrightarrow> ua \<noteq> sa \<Longrightarrow>
   lookup (reflect_step ns u sa ua h key) ua = lookup h ua"
  by (simp add: reflect_step_def Let_def)

lemma reflect_fold_length [simp]: "length (foldl (reflect_step ns u sa ua) h ks) = length h"
  by (induction ks arbitrary: h) simp_all


lemma reflect_fold_ua_kept:
  "''blogname'' \<notin> set ks \<Longrightarrow> ''blogdescription'' \<notin> set ks \<Longrightarrow> ua \<noteq> sa \<Longrightarrow>
   lookup (foldl (reflect_step ns u sa ua) h ks) ua = lookup h ua"
proof (induction ks arbitrary: h)
  case Nil
  then show ?case by simp
next
  case (Cons key rest)
  then have k: "key \<noteq> ''blogname''" "key \<noteq> ''blogdescription''" by auto
  show ?case using Cons reflect_step_ua_kept [OF k Cons.prems(3)] by simp
qed




















section \<open>The claims on the dispatcher and the router\<close>

lemmas dispatch_eval = dispatchRequest_def spyDispatcher_def spy3_def spy4_def getData_def
  getError_def getProgress_def

lemmas tests_eval = noMeta_def empty_def success_def failure_def progress_def both_def
  ingressAction_def egressAction_def unrelatedAction_def

text \<open>
  C1. On a well-formed message (metadata, when present, holds one or more of \<open>data\<close>,
  \<open>error\<close>, \<open>progress\<close>) the dispatcher built from four handlers calls exactly one of them:
  \<open>initiate\<close> with \<open>(store, action, next)\<close> when the metadata is absent; otherwise
  \<open>onFailure\<close> when there is an error; otherwise \<open>onProgress\<close> when there is progress;
  otherwise \<open>onSuccess\<close> with the data; each of the last three with the payload as fourth
  argument. With recording handlers the record grows by exactly one call.
\<close>

theorem dispatchRequest_exactly_one:
  assumes "wellFormed a"
  shows "(meta a = None \<longrightarrow>
            dispatchRequest initiate onSuccess onFailure onProgress store a next = initiate store a next
          \<and> spyDispatcher store a next calls = calls @ [Called Initiate store a next None])
       \<and> (\<forall>m e. meta a = Some m \<and> error_field m = Some e \<longrightarrow>
            dispatchRequest initiate onSuccess onFailure onProgress store a next = onFailure store a next e
          \<and> spyDispatcher store a next calls = calls @ [Called OnFailure store a next (Some e)])
       \<and> (\<forall>m p. meta a = Some m \<and> error_field m = None \<and> progress_field m = Some p \<longrightarrow>
            dispatchRequest initiate onSuccess onFailure onProgress store a next = onProgress store a next p
          \<and> spyDispatcher store a next calls = calls @ [Called OnProgress store a next (Some p)])
       \<and> (\<forall>m d. meta a = Some m \<and> error_field m = None \<and> progress_field m = None \<and> data_field m = Some d \<longrightarrow>
            dispatchRequest initiate onSuccess onFailure onProgress store a next = onSuccess store a next d
          \<and> spyDispatcher store a next calls = calls @ [Called OnSuccess store a next (Some d)])
       \<and> (\<exists>which payload. spyDispatcher store a next calls = calls @ [Called which store a next payload])"
proof -
  have one: "\<exists>which payload. spyDispatcher store a next calls = calls @ [Called which store a next payload]"
  proof (cases "meta a")
    case None
    then show ?thesis by (simp add: dispatch_eval)
  next
    case (Some m)
    then have "data_field m \<noteq> None \<or> error_field m \<noteq> None \<or> progress_field m \<noteq> None"
      using assms by (simp add: wellFormed_def)
    then show ?thesis using Some
      by (cases "error_field m"; cases "progress_field m"; cases "data_field m")
         (simp_all add: dispatch_eval)
  qed
  show ?thesis using one by (simp add: dispatch_eval)
qed

theorem dispatchRequest_exactly_one_witness:
  "wellFormed empty \<and> wellFormed success \<and> wellFormed failure \<and> wellFormed progress
   \<and> spyDispatcher () empty () [] = [Called Initiate () empty () None]
   \<and> spyDispatcher () success () [] = [Called OnSuccess () success () (Some test_data)]
   \<and> spyDispatcher () failure () [] = [Called OnFailure () failure () (Some test_error)]
   \<and> spyDispatcher () progress () [] = [Called OnProgress () progress () (Some progressInfo)]"
proof -
  have wf: "wellFormed empty" "wellFormed success" "wellFormed failure" "wellFormed progress"
    by (simp_all add: wellFormed_def tests_eval)
  have "spyDispatcher () empty () [] = [Called Initiate () empty () None]"
    using dispatchRequest_exactly_one [OF wf(1), of "spy3 Initiate" "spy4 OnSuccess" "spy4 OnFailure" "spy4 OnProgress" "()" "()" "[]"]
    by (simp add: empty_def)
  moreover have "spyDispatcher () success () [] = [Called OnSuccess () success () (Some test_data)]"
    using dispatchRequest_exactly_one [OF wf(2), of "spy3 Initiate" "spy4 OnSuccess" "spy4 OnFailure" "spy4 OnProgress" "()" "()" "[]"]
    by (simp add: success_def noMeta_def)
  moreover have "spyDispatcher () failure () [] = [Called OnFailure () failure () (Some test_error)]"
    using dispatchRequest_exactly_one [OF wf(3), of "spy3 Initiate" "spy4 OnSuccess" "spy4 OnFailure" "spy4 OnProgress" "()" "()" "[]"]
    by (simp add: failure_def noMeta_def)
  moreover have "spyDispatcher () progress () [] = [Called OnProgress () progress () (Some progressInfo)]"
    using dispatchRequest_exactly_one [OF wf(4), of "spy3 Initiate" "spy4 OnSuccess" "spy4 OnFailure" "spy4 OnProgress" "()" "()" "[]"]
    by (simp add: progress_def noMeta_def)
  ultimately show ?thesis using wf by simp
qed

text \<open>
  C2. On a message whose metadata carries both \<open>data\<close> and \<open>error\<close> the dispatcher calls
  \<open>onFailure\<close> with the error as fourth argument and nothing else: with recording handlers
  the record grows by that one call, so \<open>onSuccess\<close> is not called.
\<close>

theorem dispatchRequest_failure_wins:
  assumes "meta a = Some m" and "data_field m = Some d" and "error_field m = Some e"
  shows "dispatchRequest initiate onSuccess onFailure onProgress store a next = onFailure store a next e
       \<and> spyDispatcher store a next calls = calls @ [Called OnFailure store a next (Some e)]"
  using assms by (simp add: dispatch_eval)

theorem dispatchRequest_failure_wins_witness:
  "meta both = Some (noMeta\<lparr>data_field := Some test_data, error_field := Some test_error\<rparr>)
   \<and> spyDispatcher () both () [] = [Called OnFailure () both () (Some test_error)]"
  using dispatchRequest_failure_wins
    [of both "noMeta\<lparr>data_field := Some test_data, error_field := Some test_error\<rparr>" test_data test_error
        "spy3 Initiate" "spy4 OnSuccess" "spy4 OnFailure" "spy4 OnProgress" "()" "()" "[]"]
  by (simp add: both_def noMeta_def)

text \<open>
  C3. The pipeline stage built from \<open>handleIngress\<close> and \<open>handleEgress\<close> hands a message
  that classifies as ingress to \<open>handleIngress\<close>, one that does not but classifies as egress
  to \<open>handleEgress\<close>, each with \<open>next\<close> and the message, and does not call \<open>next\<close> itself;
  any other message it passes to \<open>next\<close> as it is. With recording handlers the record grows
  by exactly one entry: the matching handler's call or the call of \<open>next\<close> with the message.
  A message that classifies both ways goes to \<open>handleIngress\<close>, the first rule of 4.3.
\<close>

theorem processHttpRequest_routes:
  "(isHttpIngress a \<longrightarrow>
      processHttpRequest handleIngress handleEgress store next a = handleIngress store next a
    \<and> processHttpRequest spyIngress spyEgress store spyNext a calls = calls @ [ToIngress store a])
   \<and> (\<not> isHttpIngress a \<and> isHttpEgress a \<longrightarrow>
      processHttpRequest handleIngress handleEgress store next a = handleEgress store next a
    \<and> processHttpRequest spyIngress spyEgress store spyNext a calls = calls @ [ToEgress store a])
   \<and> (\<not> isHttpIngress a \<and> \<not> isHttpEgress a \<longrightarrow>
      processHttpRequest handleIngress handleEgress store next a = next a
    \<and> processHttpRequest spyIngress spyEgress store spyNext a calls = calls @ [ToNext a])"
  by (simp add: processHttpRequest_def spyIngress_def spyEgress_def spyNext_def)

theorem processHttpRequest_routes_witness:
  "isHttpIngress ingressAction
   \<and> processHttpRequest spyIngress spyEgress () spyNext ingressAction [] = [ToIngress () ingressAction]
   \<and> \<not> isHttpIngress egressAction \<and> isHttpEgress egressAction
   \<and> processHttpRequest spyIngress spyEgress () spyNext egressAction [] = [ToEgress () egressAction]
   \<and> \<not> isHttpIngress unrelatedAction \<and> \<not> isHttpEgress unrelatedAction
   \<and> processHttpRequest spyIngress spyEgress () spyNext unrelatedAction [] = [ToNext unrelatedAction]"
proof -
  have cls: "isHttpIngress ingressAction" "\<not> isHttpIngress egressAction" "isHttpEgress egressAction"
    "\<not> isHttpIngress unrelatedAction" "\<not> isHttpEgress unrelatedAction"
    by (simp_all add: isHttpIngress_def isHttpEgress_def getData_def getError_def tests_eval
        WPCOM_HTTP_REQUEST_def)
  show ?thesis
    using cls
      processHttpRequest_routes [of ingressAction spyIngress spyEgress "()" spyNext "[]"]
      processHttpRequest_routes [of egressAction spyIngress spyEgress "()" spyNext "[]"]
      processHttpRequest_routes [of unrelatedAction spyIngress spyEgress "()" spyNext "[]"]
    by (simp add: spyIngress_def spyEgress_def spyNext_def)
qed

section \<open>The claims on \<open>set\<close>\<close>

lemmas blog_eval = blog_def titleFromName_def ownKeys_def getOwn_def lookup_def plain_def
  set_attrs_def updateComputedAttributes_def putOwn_def deleteOwn_def alloc_def

text \<open>
  C6. When every value of the attribute bag is deeply equal to what the site holds under
  the same key, the loop of \<open>set\<close> stores and deletes nothing, no change event is emitted and
  \<open>set\<close> returns false; all that \<open>set\<close> does is to rederive the computed attributes, as on
  every call. This is for a bag of plain data whose keys are own keys of the site (the site
  has a current value for each of them, and \<open>this[prop]\<close> is that own property) and are not
  among \<open>reservedKeys\<close>, on a site that has its methods. In particular, after \<open>set\<close> with a
  bag of primitive values other than \<open>undefined\<close> (such as \<open>{a: 1}\<close>; such a value differs
  from whatever the site inherits under the key as it differs from \<open>undefined\<close>, and is an
  own property of the site after the first call) whose keys are neither reserved nor computed
  attributes, a second \<open>set\<close> with a bag of the same properties returns false and emits no
  second change event, and the site holds the values of the bag.
\<close>

theorem set_equal_bag_noop:
  "(plainData (length (heap w)) (heap w) self attributes \<and> intact ga (heap w) self
    \<and> (\<forall>k\<in>set (ownKeys (heap w) attributes).
          k \<in> set (ownKeys (heap w) (JRef self)) \<and> k \<notin> set reservedKeys
          \<and> isEqual (heap w) (getOwn (heap w) attributes k) (getOwn (heap w) (JRef self) k))
    \<longrightarrow> set_attrs ga w self attributes
          = (w\<lparr>heap := updateComputedAttributes ga (heap w) self\<rparr>, False))
   \<and> (self < length (heap w) \<and> intact ga (heap w) self \<and> b \<noteq> self \<and> b' \<noteq> self
      \<and> ownProps (heap w) (JRef b') = ownProps (heap w) (JRef b)
      \<and> (\<forall>k\<in>set (ownKeys (heap w) (JRef b)).
            \<not> isRef (getOwn (heap w) (JRef b) k) \<and> getOwn (heap w) (JRef b) k \<noteq> JUndefined
            \<and> k \<notin> set reservedKeys \<and> (\<forall>h. k \<notin> fst ` set (ga h self)))
    \<longrightarrow> snd (set_attrs ga (fst (set_attrs ga w self (JRef b))) self (JRef b')) = False
        \<and> emitted (fst (set_attrs ga (fst (set_attrs ga w self (JRef b))) self (JRef b')))
          = emitted (fst (set_attrs ga w self (JRef b)))
        \<and> (\<forall>k\<in>set (ownKeys (heap w) (JRef b)).
              getOwn (heap (fst (set_attrs ga (fst (set_attrs ga w self (JRef b))) self (JRef b')))) (JRef self) k
              = getOwn (heap w) (JRef b) k))"
proof (intro conjI impI)
  assume "plainData (length (heap w)) (heap w) self attributes \<and> intact ga (heap w) self
    \<and> (\<forall>k\<in>set (ownKeys (heap w) attributes).
          k \<in> set (ownKeys (heap w) (JRef self)) \<and> k \<notin> set reservedKeys
          \<and> isEqual (heap w) (getOwn (heap w) attributes k) (getOwn (heap w) (JRef self) k))"
  then have "\<forall>k\<in>set (ownKeys (heap w) attributes).
        isEqual (heap w) (getOwn (heap w) attributes k) (getOwn (heap w) (JRef self) k)"
    by blast
  then show "set_attrs ga w self attributes
          = (w\<lparr>heap := updateComputedAttributes ga (heap w) self\<rparr>, False)"
    by (rule set_attrs_noop)
next
  assume h: "self < length (heap w) \<and> intact ga (heap w) self \<and> b \<noteq> self \<and> b' \<noteq> self
      \<and> ownProps (heap w) (JRef b') = ownProps (heap w) (JRef b)
      \<and> (\<forall>k\<in>set (ownKeys (heap w) (JRef b)).
            \<not> isRef (getOwn (heap w) (JRef b) k) \<and> getOwn (heap w) (JRef b) k \<noteq> JUndefined
            \<and> k \<notin> set reservedKeys \<and> (\<forall>h. k \<notin> fst ` set (ga h self)))"
  let ?w1 = "fst (set_attrs ga w self (JRef b))"
  let ?w2 = "fst (set_attrs ga ?w1 self (JRef b'))"
  have pb: "ownProps (heap ?w1) (JRef b) = ownProps (heap w) (JRef b)"
    and pb': "ownProps (heap ?w1) (JRef b') = ownProps (heap w) (JRef b)"
    using h by (simp_all add: set_attrs_ownProps_other del: ownProps.simps)
  have after: "getOwn (heap ?w1) (JRef self) k = getOwn (heap w) (JRef b) k"
    if kin: "k \<in> set (ownKeys (heap w) (JRef b))" for k
  proof -
    let ?v = "getOwn (heap w) (JRef b) k"
    have prim: "\<not> isRef ?v" and nc: "\<forall>h. k \<notin> fst ` set (ga h self)" using h kin by auto
    have "map_of (ownProps (heap ?w1) (JRef self)) k = stored ?v (map_of (ownProps (heap w) (JRef self)) k)"
      using h kin prim nc by (intro set_attrs_prim) auto
    then show ?thesis
      using stored_get [OF prim] by (simp add: getOwn_map_of del: ownProps.simps)
  qed
  have "\<forall>k\<in>set (ownKeys (heap ?w1) (JRef b')).
          isEqual (heap ?w1) (getOwn (heap ?w1) (JRef b') k) (getOwn (heap ?w1) (JRef self) k)"
  proof
    fix k assume "k \<in> set (ownKeys (heap ?w1) (JRef b'))"
    then have kin: "k \<in> set (ownKeys (heap w) (JRef b))" by (simp add: ownKeys_def pb' del: ownProps.simps)
    have "getOwn (heap ?w1) (JRef b') k = getOwn (heap w) (JRef b) k"
      by (simp add: getOwn_map_of pb' del: ownProps.simps)
    then show "isEqual (heap ?w1) (getOwn (heap ?w1) (JRef b') k) (getOwn (heap ?w1) (JRef self) k)"
      using after [OF kin] by simp
  qed
  then have second: "set_attrs ga ?w1 self (JRef b') = (?w1\<lparr>heap := updateComputedAttributes ga (heap ?w1) self\<rparr>, False)"
    by (rule set_attrs_noop)
  show "snd (set_attrs ga ?w1 self (JRef b')) = False"
    and "emitted ?w2 = emitted ?w1"
    using second by simp_all
  show "\<forall>k\<in>set (ownKeys (heap w) (JRef b)). getOwn (heap ?w2) (JRef self) k = getOwn (heap w) (JRef b) k"
  proof
    fix k assume kin: "k \<in> set (ownKeys (heap w) (JRef b))"
    then have nc: "k \<notin> fst ` set (ga (heap ?w1) self)" using h by blast
    have "heap ?w2 = updateComputedAttributes ga (heap ?w1) self" using second by simp
    then have "map_of (ownProps (heap ?w2) (JRef self)) k = map_of (ownProps (heap ?w1) (JRef self)) k"
      using updateComputedAttributes_key_untouched [of k ga "heap ?w1" self, OF nc]
      by (simp del: ownProps.simps)
    then have "getOwn (heap ?w2) (JRef self) k = getOwn (heap ?w1) (JRef self) k"
      by (simp add: getOwn_map_of del: ownProps.simps)
    then show "getOwn (heap ?w2) (JRef self) k = getOwn (heap w) (JRef b) k"
      using after [OF kin] by simp
  qed
qed

lemma blog_equal_bag:
  "plainData (length (heap blog)) (heap blog) 0 (JRef 16)
   \<and> (\<forall>m\<in>set reservedKeys. m \<notin> set (ownKeys (heap blog) (JRef 0)))
   \<and> (\<forall>k\<in>set (ownKeys (heap blog) (JRef 16)).
          k \<in> set (ownKeys (heap blog) (JRef 0)) \<and> k \<notin> set reservedKeys
          \<and> isEqual (heap blog) (getOwn (heap blog) (JRef 16) k) (getOwn (heap blog) (JRef 0) k))
   \<and> getOwn (heap blog) (JRef 16) ''settings'' = JRef 15
   \<and> getOwn (heap blog) (JRef 0) ''settings'' = JRef 1"
  by code_simp

theorem set_equal_bag_noop_witness:
  "getOwn (heap blog) (JRef 16) ''settings'' = JRef 15
   \<and> getOwn (heap blog) (JRef 0) ''settings'' = JRef 1
   \<and> set_attrs titleFromName blog 0 (JRef 16) = (blog, False)
   \<and> snd (set_attrs titleFromName blog 0 (JRef 2)) = True
   \<and> snd (set_attrs titleFromName (fst (set_attrs titleFromName blog 0 (JRef 2))) 0 (JRef 2)) = False
   \<and> emitted (fst (set_attrs titleFromName (fst (set_attrs titleFromName blog 0 (JRef 2))) 0 (JRef 2)))
       = [(0, ''change'')]
   \<and> getOwn (heap (fst (set_attrs titleFromName (fst (set_attrs titleFromName blog 0 (JRef 2))) 0 (JRef 2))))
        (JRef 0) ''a'' = JNum 1"
proof -
  have up: "updateComputedAttributes titleFromName (heap blog) 0 = heap blog"
    by (simp add: blog_eval)
  have first: "snd (set_attrs titleFromName blog 0 (JRef 2)) = True
     \<and> emitted (fst (set_attrs titleFromName blog 0 (JRef 2))) = [(0, ''change'')]"
    by (simp add: blog_eval isEqual_prim_left)
  have int: "intact titleFromName (heap blog) 0"
    using blog_equal_bag by (simp add: intact_def titleFromName_def reservedKeys_def)
  note t = set_equal_bag_noop [of blog 0 "JRef 16" titleFromName 2 2]
  have "set_attrs titleFromName blog 0 (JRef 16)
        = (blog\<lparr>heap := updateComputedAttributes titleFromName (heap blog) 0\<rparr>, False)"
    using t blog_equal_bag int by blast
  then have one: "set_attrs titleFromName blog 0 (JRef 16) = (blog, False)"
    unfolding up by simp
  have pre: "0 < length (heap blog) \<and> intact titleFromName (heap blog) 0 \<and> (2::nat) \<noteq> 0 \<and> (2::nat) \<noteq> 0
      \<and> ownProps (heap blog) (JRef 2) = ownProps (heap blog) (JRef 2)
      \<and> (\<forall>k\<in>set (ownKeys (heap blog) (JRef 2)).
            \<not> isRef (getOwn (heap blog) (JRef 2) k) \<and> getOwn (heap blog) (JRef 2) k \<noteq> JUndefined
            \<and> k \<notin> set reservedKeys \<and> (\<forall>h. k \<notin> fst ` set (titleFromName h 0)))"
    using int
    by (simp add: blog_def titleFromName_def ownKeys_def getOwn_def lookup_def plain_def reservedKeys_def)
  have two: "snd (set_attrs titleFromName (fst (set_attrs titleFromName blog 0 (JRef 2))) 0 (JRef 2)) = False
   \<and> emitted (fst (set_attrs titleFromName (fst (set_attrs titleFromName blog 0 (JRef 2))) 0 (JRef 2)))
       = emitted (fst (set_attrs titleFromName blog 0 (JRef 2)))
   \<and> (\<forall>k\<in>set (ownKeys (heap blog) (JRef 2)).
         getOwn (heap (fst (set_attrs titleFromName (fst (set_attrs titleFromName blog 0 (JRef 2))) 0 (JRef 2))))
           (JRef 0) k = getOwn (heap blog) (JRef 2) k)"
    using t pre by blast
  then have "getOwn (heap (fst (set_attrs titleFromName (fst (set_attrs titleFromName blog 0 (JRef 2))) 0 (JRef 2))))
        (JRef 0) ''a'' = getOwn (heap blog) (JRef 2) ''a''"
    by (simp add: blog_def ownKeys_def lookup_def plain_def)
  moreover have "getOwn (heap blog) (JRef 2) ''a'' = JNum 1"
    by (simp add: blog_def getOwn_def lookup_def plain_def)
  ultimately show ?thesis using one two first blog_equal_bag by simp
qed



section \<open>The claims on \<open>fetchSettings\<close>\<close>

text \<open>
  C5. A fetch that is answered with an error whose \<open>statusCode\<close> is 403 shows exactly one
  notice: the log of notices is the one before the call with the notice that says the user
  is not authorized added at its end. Nothing else is changed by the answer: the store is
  the one \<open>fetchSettings\<close> left when it sent the request, which is the store before the call
  with the object literal added, \<open>fetchingSettings\<close> set to true on the site and the computed
  attributes rederived. So \<open>fetchingSettings\<close> is true (it is not cleared), every other
  attribute that is not a computed one is as it was before the call, and so is every other
  object of the store.
\<close>

theorem fetchSettings_forbidden:
  assumes "self < length (heap w)" and "ea \<noteq> self"
    and "getOwn (heap w) (JRef ea) ''statusCode'' = JNum 403"
    and "intact ga (heap w) self"
  shows "\<exists>w'. fetchSettings_answered ga w self siteID elapsed (JRef ea) data = Inr w'
       \<and> w' = notify (tick elapsed (fetchSettings ga w self siteID))
                 \<lparr>message = ''You are not authorized to manage settings for this site.'',
                  button = None, href = None\<rparr>
       \<and> notices w' = notices w @ [\<lparr>message = ''You are not authorized to manage settings for this site.'',
                                     button = None, href = None\<rparr>]
       \<and> heap w' = updateComputedAttributes ga
                      (putOwn (heap w @ [plain [(''fetchingSettings'', JBool True)]])
                         self ''fetchingSettings'' (JBool True)) self
       \<and> ((\<forall>h. ''fetchingSettings'' \<notin> fst ` set (ga h self)) \<longrightarrow>
            getOwn (heap w') (JRef self) ''fetchingSettings'' = JBool True)
       \<and> (\<forall>k. k \<noteq> ''fetchingSettings'' \<and> (\<forall>h. k \<notin> fst ` set (ga h self)) \<longrightarrow>
            map_of (ownProps (heap w') (JRef self)) k = map_of (ownProps (heap w) (JRef self)) k)
       \<and> (\<forall>a. a < length (heap w) \<and> a \<noteq> self \<longrightarrow> lookup (heap w') a = lookup (heap w) a)"
proof -
  let ?n = "\<lparr>message = ''You are not authorized to manage settings for this site.'',
             button = None, href = None\<rparr>"
  let ?F = "fetchSettings ga w self siteID"
  let ?w' = "notify (tick elapsed ?F) ?n"
  have ea: "ea < length (heap w)" using assms(3) getOwn_Some_valid [of "heap w" ea "''statusCode''"] by simp
  have "ownProps (heap ?F) (JRef ea) = ownProps (heap w) (JRef ea)"
    using fetchSettings_lookup_other [OF ea assms(2)] by simp
  then have "getOwn (heap ?F) (JRef ea) ''statusCode'' = JNum 403"
    using assms(3) by (simp add: getOwn_map_of del: ownProps.simps)
  then have r: "fetchSettings_answered ga w self siteID elapsed (JRef ea) data = Inr ?w'"
    by (simp add: fetchSettings_answered_def fetchSettings_callback_def settingsErrorHandler_def
        getProp_def andThen_def tick_def Let_def)
  have hw: "heap ?w' = heap ?F" and nw: "notices ?w' = notices w @ [?n]"
    by (simp_all add: notify_def)
  have c4: "heap ?w' = updateComputedAttributes ga
                      (putOwn (heap w @ [plain [(''fetchingSettings'', JBool True)]])
                         self ''fetchingSettings'' (JBool True)) self"
    unfolding hw using assms(1) by (rule fetchSettings_heap)
  have c5: "(\<forall>h. ''fetchingSettings'' \<notin> fst ` set (ga h self)) \<longrightarrow>
            getOwn (heap ?w') (JRef self) ''fetchingSettings'' = JBool True"
    unfolding hw using fetchSettings_flag [OF assms(1)] by blast
  have c6: "\<forall>k. k \<noteq> ''fetchingSettings'' \<and> (\<forall>h. k \<notin> fst ` set (ga h self)) \<longrightarrow>
            map_of (ownProps (heap ?w') (JRef self)) k = map_of (ownProps (heap w) (JRef self)) k"
    unfolding hw using fetchSettings_key_untouched [OF assms(1)] by blast
  have c7: "\<forall>a. a < length (heap w) \<and> a \<noteq> self \<longrightarrow> lookup (heap ?w') a = lookup (heap w) a"
    unfolding hw using fetchSettings_lookup_other by blast
  from r nw c4 c5 c6 c7 show ?thesis by (intro exI [of _ ?w'] conjI) simp_all
qed

theorem fetchSettings_forbidden_witness:
  "\<exists>w'. fetchSettings_answered titleFromName blog 0 JUndefined 25 (JRef 7) JUndefined = Inr w'
     \<and> notices w' = [\<lparr>message = ''You are not authorized to manage settings for this site.'',
                       button = None, href = None\<rparr>]
     \<and> getOwn (heap w') (JRef 0) ''fetchingSettings'' = JBool True
     \<and> map_of (ownProps (heap w') (JRef 0)) ''name'' = Some (JStr ''Blog'')
     \<and> lookup (heap w') 1 = lookup (heap blog) 1"
proof -
  have pre: "0 < length (heap blog)" "(7::nat) \<noteq> 0"
    "getOwn (heap blog) (JRef 7) ''statusCode'' = JNum 403"
    "intact titleFromName (heap blog) 0"
    by (simp_all add: blog_def getOwn_def lookup_def plain_def intact_def reservedKeys_def
        titleFromName_def ownKeys_def)
  have nc: "\<forall>h. k \<notin> fst ` set (titleFromName h 0)" if "k \<noteq> ''title''" for k
    using that by (simp add: titleFromName_def)
  have old: "notices blog = []" "map_of (ownProps (heap blog) (JRef 0)) ''name'' = Some (JStr ''Blog'')"
    "1 < length (heap blog)"
    by (simp_all add: blog_def lookup_def plain_def)
  from fetchSettings_forbidden [OF pre, of JUndefined 25 JUndefined]
  obtain w' where
    r: "fetchSettings_answered titleFromName blog 0 JUndefined 25 (JRef 7) JUndefined = Inr w'"
    and n: "notices w' = notices blog @ [\<lparr>message = ''You are not authorized to manage settings for this site.'',
                                     button = None, href = None\<rparr>]"
    and f: "(\<forall>h. ''fetchingSettings'' \<notin> fst ` set (titleFromName h 0)) \<longrightarrow>
            getOwn (heap w') (JRef 0) ''fetchingSettings'' = JBool True"
    and u: "\<forall>k. k \<noteq> ''fetchingSettings'' \<and> (\<forall>h. k \<notin> fst ` set (titleFromName h 0)) \<longrightarrow>
            map_of (ownProps (heap w') (JRef 0)) k = map_of (ownProps (heap blog) (JRef 0)) k"
    and o: "\<forall>a. a < length (heap blog) \<and> a \<noteq> 0 \<longrightarrow> lookup (heap w') a = lookup (heap blog) a"
    by (elim exE conjE)
  have "getOwn (heap w') (JRef 0) ''fetchingSettings'' = JBool True"
    using f nc [of "''fetchingSettings''"] by simp
  moreover have "map_of (ownProps (heap w') (JRef 0)) ''name'' = Some (JStr ''Blog'')"
    using u [rule_format, of "''name''"] nc [of "''name''"] old(2) by (simp del: ownProps.simps)
  moreover have "lookup (heap w') 1 = lookup (heap blog) 1"
    using o [rule_format, of 1] old(3) by simp
  ultimately show ?thesis using r n old(1) by (intro exI [of _ w']) (simp del: ownProps.simps)
qed

text \<open>
  C8, as the code has it. A fetch that is answered without error and with an object \<open>data\<close>
  of plain data (what a parsed response is) with no key among \<open>reservedKeys\<close> merges the
  fields of \<open>data\<close> into the site's own attributes: where they are not computed attributes,
  \<open>latestSettings\<close> is the clock's reading when the answer is handled (the reading at the
  call plus the time elapsed), \<open>fetchingSettings\<close> is false, and every other key of \<open>data\<close>
  reads on the site what \<open>data\<close> holds for it, unless \<open>isEqual\<close>, in the store as it is when
  the loop of \<open>set\<close> reaches the key, finds that value equal to the one the site holds, which
  then stays; that can only be when both are objects: where \<open>data\<close> or the site holds a
  primitive under the key, the site reads what \<open>data\<close> holds. Keys that \<open>data\<close> does not have are
  left as they were, and no object other than the site and \<open>data\<close> is written to (nothing is
  merged into the object under \<open>settings\<close>). The timestamp is not below the time of the
  call when the clock has not been set back; it is not strictly greater when no millisecond
  has passed.
\<close>

theorem fetchSettings_merges_response:
  assumes "self < length (heap w)"
    and "plainData (length (heap w)) (heap w) self (JRef da)"
    and "distinct (ownKeys (heap w) (JRef da))"
    and "\<not> truthy error"
    and "\<forall>m\<in>set reservedKeys. m \<notin> set (ownKeys (heap w) (JRef da))"
    and "intact ga (heap w) self"
  shows "\<exists>w'. fetchSettings_answered ga w self siteID elapsed error (JRef da) = Inr w'
    \<and> ((\<forall>h. ''latestSettings'' \<notin> fst ` set (ga h self)) \<longrightarrow>
          getOwn (heap w') (JRef self) ''latestSettings'' = JNum (clock w + elapsed))
    \<and> ((\<forall>h. ''fetchingSettings'' \<notin> fst ` set (ga h self)) \<longrightarrow>
          getOwn (heap w') (JRef self) ''fetchingSettings'' = JBool False)
    \<and> (\<forall>k. k \<in> set (ownKeys (heap w) (JRef da)) \<and> k \<noteq> ''latestSettings'' \<and> k \<noteq> ''fetchingSettings''
            \<and> (\<forall>h. k \<notin> fst ` set (ga h self)) \<longrightarrow>
          getOwn (heap w') (JRef self) k
          = (if isEqual (reached self (JRef da)
                           (stamped (heap (fetchSettings ga w self siteID)) da (clock w + elapsed)) k)
                  (getOwn (heap w) (JRef da) k) (getOwn (heap w) (JRef self) k)
             then getOwn (heap w) (JRef self) k else getOwn (heap w) (JRef da) k)
          \<and> (\<not> isRef (getOwn (heap w) (JRef da) k) \<or> \<not> isRef (getOwn (heap w) (JRef self) k) \<longrightarrow>
               getOwn (heap w') (JRef self) k = getOwn (heap w) (JRef da) k))
    \<and> (\<forall>k. k \<notin> set (ownKeys (heap w) (JRef da)) \<and> k \<noteq> ''latestSettings'' \<and> k \<noteq> ''fetchingSettings''
            \<and> (\<forall>h. k \<notin> fst ` set (ga h self)) \<longrightarrow>
          map_of (ownProps (heap w') (JRef self)) k = map_of (ownProps (heap w) (JRef self)) k)
    \<and> (\<forall>a. a < length (heap w) \<and> a \<noteq> self \<and> a \<noteq> da \<longrightarrow> lookup (heap w') a = lookup (heap w) a)"
proof -
  define F where "F = tick elapsed (fetchSettings ga w self siteID)"
  have pos: "0 < length (heap w)" using assms(1) by (cases "heap w") simp_all
  have dav: "da \<noteq> self" "da < length (heap w)"
    using plainData_ref [OF pos assms(2)] by simp_all
  have hF: "heap F = heap (fetchSettings ga w self siteID)" and cF: "clock F = clock w + elapsed"
    by (simp_all add: F_def)
  have s: "self < length (heap F)" and d: "da < length (heap F)"
    using assms(1) dav by (simp_all add: hF)
  have dap: "ownProps (heap F) (JRef da) = ownProps (heap w) (JRef da)"
    using fetchSettings_lookup_other [OF dav(2) dav(1), of ga siteID] by (simp add: hF)
  have dak: "ownKeys (heap F) (JRef da) = ownKeys (heap w) (JRef da)"
    using dap by (rule ownKeys_cong)
  have dist: "distinct (ownKeys (heap F) (JRef da))" using assms(3) unfolding dak .
  have dag: "getOwn (heap F) (JRef da) k = getOwn (heap w) (JRef da) k" for k
    using dap by (rule getOwn_cong)
  have sm: "map_of (ownProps (heap F) (JRef self)) k = map_of (ownProps (heap w) (JRef self)) k"
    if "k \<noteq> ''fetchingSettings''" "\<forall>h. k \<notin> fst ` set (ga h self)" for k
    unfolding hF using assms(1) that by (rule fetchSettings_key_untouched)
  have sg: "getOwn (heap F) (JRef self) k = getOwn (heap w) (JRef self) k"
    if "k \<noteq> ''fetchingSettings''" "\<forall>h. k \<notin> fst ` set (ga h self)" for k
    using sm [OF that] by (simp add: getOwn_def del: ownProps.simps)
  have fr: "lookup (heap F) a = lookup (heap w) a" if "a < length (heap w)" "a \<noteq> self" for a
    unfolding hF using that by (rule fetchSettings_lookup_other)
  from fetchSettings_callback_merges [OF s d dav(1) assms(4) dist, of ga]
  obtain w' where
    r: "fetchSettings_callback ga F self error (JRef da) = Inr w'"
    and l: "(\<forall>h. ''latestSettings'' \<notin> fst ` set (ga h self)) \<longrightarrow>
          getOwn (heap w') (JRef self) ''latestSettings'' = JNum (clock F)"
    and f: "(\<forall>h. ''fetchingSettings'' \<notin> fst ` set (ga h self)) \<longrightarrow>
          getOwn (heap w') (JRef self) ''fetchingSettings'' = JBool False"
    and m: "\<forall>k. k \<in> set (ownKeys (heap F) (JRef da)) \<and> k \<noteq> ''latestSettings'' \<and> k \<noteq> ''fetchingSettings''
            \<and> (\<forall>h. k \<notin> fst ` set (ga h self)) \<longrightarrow>
          getOwn (heap w') (JRef self) k
          = (if isEqual (reached self (JRef da) (stamped (heap F) da (clock F)) k)
                  (getOwn (heap F) (JRef da) k) (getOwn (heap F) (JRef self) k)
             then getOwn (heap F) (JRef self) k else getOwn (heap F) (JRef da) k)"
    and u: "\<forall>k. k \<notin> set (ownKeys (heap F) (JRef da)) \<and> k \<noteq> ''latestSettings'' \<and> k \<noteq> ''fetchingSettings''
            \<and> (\<forall>h. k \<notin> fst ` set (ga h self)) \<longrightarrow>
          map_of (ownProps (heap w') (JRef self)) k = map_of (ownProps (heap F) (JRef self)) k"
    and o: "\<forall>a. a \<noteq> self \<and> a \<noteq> da \<longrightarrow> lookup (heap w') a = lookup (heap F) a"
    by (elim exE conjE)
  have c1: "fetchSettings_answered ga w self siteID elapsed error (JRef da) = Inr w'"
    using r by (simp add: fetchSettings_answered_def F_def)
  have c2: "(\<forall>h. ''latestSettings'' \<notin> fst ` set (ga h self)) \<longrightarrow>
          getOwn (heap w') (JRef self) ''latestSettings'' = JNum (clock w + elapsed)"
    using l unfolding cF .
  have c4: "\<forall>k. k \<in> set (ownKeys (heap w) (JRef da)) \<and> k \<noteq> ''latestSettings'' \<and> k \<noteq> ''fetchingSettings''
            \<and> (\<forall>h. k \<notin> fst ` set (ga h self)) \<longrightarrow>
          getOwn (heap w') (JRef self) k
          = (if isEqual (reached self (JRef da)
                           (stamped (heap (fetchSettings ga w self siteID)) da (clock w + elapsed)) k)
                  (getOwn (heap w) (JRef da) k) (getOwn (heap w) (JRef self) k)
             then getOwn (heap w) (JRef self) k else getOwn (heap w) (JRef da) k)
          \<and> (\<not> isRef (getOwn (heap w) (JRef da) k) \<or> \<not> isRef (getOwn (heap w) (JRef self) k) \<longrightarrow>
               getOwn (heap w') (JRef self) k = getOwn (heap w) (JRef da) k)"
  proof (intro allI impI, elim conjE)
    fix k
    assume a: "k \<in> set (ownKeys (heap w) (JRef da))" "k \<noteq> ''latestSettings''"
      "k \<noteq> ''fetchingSettings''" "\<forall>h. k \<notin> fst ` set (ga h self)"
    let ?H = "reached self (JRef da) (stamped (heap (fetchSettings ga w self siteID)) da (clock w + elapsed)) k"
    have "getOwn (heap w') (JRef self) k
          = (if isEqual (reached self (JRef da) (stamped (heap F) da (clock F)) k)
                  (getOwn (heap F) (JRef da) k) (getOwn (heap F) (JRef self) k)
             then getOwn (heap F) (JRef self) k else getOwn (heap F) (JRef da) k)"
      using m [rule_format, of k] a unfolding dak by simp
    then have e: "getOwn (heap w') (JRef self) k
          = (if isEqual ?H (getOwn (heap w) (JRef da) k) (getOwn (heap w) (JRef self) k)
             then getOwn (heap w) (JRef self) k else getOwn (heap w) (JRef da) k)"
      by (simp only: dag sg [OF a(3) a(4)] cF) (simp only: hF)
    have "getOwn (heap w') (JRef self) k = getOwn (heap w) (JRef da) k"
      if "\<not> isRef (getOwn (heap w) (JRef da) k) \<or> \<not> isRef (getOwn (heap w) (JRef self) k)"
      using e that by (auto simp: isEqual_prim_left isEqual_prim_right)
    then show "getOwn (heap w') (JRef self) k
          = (if isEqual ?H (getOwn (heap w) (JRef da) k) (getOwn (heap w) (JRef self) k)
             then getOwn (heap w) (JRef self) k else getOwn (heap w) (JRef da) k)
          \<and> (\<not> isRef (getOwn (heap w) (JRef da) k) \<or> \<not> isRef (getOwn (heap w) (JRef self) k) \<longrightarrow>
               getOwn (heap w') (JRef self) k = getOwn (heap w) (JRef da) k)"
      using e by blast
  qed
  have c5: "\<forall>k. k \<notin> set (ownKeys (heap w) (JRef da)) \<and> k \<noteq> ''latestSettings'' \<and> k \<noteq> ''fetchingSettings''
            \<and> (\<forall>h. k \<notin> fst ` set (ga h self)) \<longrightarrow>
          map_of (ownProps (heap w') (JRef self)) k = map_of (ownProps (heap w) (JRef self)) k"
  proof (intro allI impI, elim conjE)
    fix k
    assume a: "k \<notin> set (ownKeys (heap w) (JRef da))" "k \<noteq> ''latestSettings''"
      "k \<noteq> ''fetchingSettings''" "\<forall>h. k \<notin> fst ` set (ga h self)"
    have "map_of (ownProps (heap w') (JRef self)) k = map_of (ownProps (heap F) (JRef self)) k"
      using u [rule_format, of k] a unfolding dak by simp
    then show "map_of (ownProps (heap w') (JRef self)) k = map_of (ownProps (heap w) (JRef self)) k"
      unfolding sm [OF a(3) a(4)] .
  qed
  have c6: "\<forall>a. a < length (heap w) \<and> a \<noteq> self \<and> a \<noteq> da \<longrightarrow> lookup (heap w') a = lookup (heap w) a"
  proof (intro allI impI, elim conjE)
    fix a assume a: "a < length (heap w)" "a \<noteq> self" "a \<noteq> da"
    have "lookup (heap w') a = lookup (heap F) a" using o a by simp
    then show "lookup (heap w') a = lookup (heap w) a" unfolding fr [OF a(1) a(2)] .
  qed
  from c1 c2 f c4 c5 c6 show ?thesis by (intro exI [of _ w'] conjI)
qed

lemma blog_response:
  "plainData (length (heap blog)) (heap blog) 0 (JRef 14)
   \<and> distinct (ownKeys (heap blog) (JRef 14))
   \<and> (\<forall>m\<in>set reservedKeys. m \<notin> set (ownKeys (heap blog) (JRef 14)))
   \<and> (\<forall>m\<in>set reservedKeys. m \<notin> set (ownKeys (heap blog) (JRef 0)))
   \<and> \<not> isEqual (reached 0 (JRef 14)
                   (stamped (heap (fetchSettings titleFromName blog 0 JUndefined)) 14 (clock blog + 25))
                   ''settings'')
               (JRef 11) (JRef 1)"
  by code_simp

theorem fetchSettings_merges_response_witness:
  "\<exists>w'. fetchSettings_answered titleFromName blog 0 JUndefined 25 JNull (JRef 14) = Inr w'
       \<and> getOwn (heap w') (JRef 0) ''latestSettings'' = JNum 1025
       \<and> getOwn (heap w') (JRef 0) ''fetchingSettings'' = JBool False
       \<and> getOwn (heap w') (JRef 0) ''blogname'' = JStr ''Foo''
       \<and> getOwn (heap blog) (JRef 0) ''settings'' = JRef 1
       \<and> getOwn (heap w') (JRef 0) ''settings'' = JRef 11
       \<and> getOwn (heap w') (JRef 0) ''ID'' = JNum 7
       \<and> lookup (heap w') 1 = lookup (heap blog) 1"
proof -
  have pre: "0 < length (heap blog)"
    "plainData (length (heap blog)) (heap blog) 0 (JRef 14)"
    "distinct (ownKeys (heap blog) (JRef 14))"
    "\<not> truthy JNull"
    "\<forall>m\<in>set reservedKeys. m \<notin> set (ownKeys (heap blog) (JRef 14))"
    using blog_response by (simp_all add: blog_def)
  have int: "intact titleFromName (heap blog) 0"
    using blog_response by (simp add: intact_def titleFromName_def reservedKeys_def)
  have ne: "\<not> isEqual (reached 0 (JRef 14)
                   (stamped (heap (fetchSettings titleFromName blog 0 JUndefined)) 14 (clock blog + 25))
                   ''settings'')
               (JRef 11) (JRef 1)"
    using blog_response by blast
  have nc: "\<forall>h. k \<notin> fst ` set (titleFromName h 0)" if "k \<noteq> ''title''" for k
    using that by (simp add: titleFromName_def)
  have keys: "set (ownKeys (heap blog) (JRef 14)) = {''blogname'', ''settings''}"
    by (auto simp: blog_def ownKeys_def lookup_def plain_def)
  have vals: "getOwn (heap blog) (JRef 14) ''blogname'' = JStr ''Foo''"
    "getOwn (heap blog) (JRef 14) ''settings'' = JRef 11"
    "getOwn (heap blog) (JRef 0) ''settings'' = JRef 1"
    "getOwn (heap blog) (JRef 0) ''ID'' = JNum 7"
    "clock blog = 1000" "1 < length (heap blog)"
    by (simp_all add: blog_def getOwn_def lookup_def plain_def)
  from fetchSettings_merges_response [OF pre int, of JUndefined 25]
  obtain w' where
    r: "fetchSettings_answered titleFromName blog 0 JUndefined 25 JNull (JRef 14) = Inr w'"
    and l: "(\<forall>h. ''latestSettings'' \<notin> fst ` set (titleFromName h 0)) \<longrightarrow>
          getOwn (heap w') (JRef 0) ''latestSettings'' = JNum (clock blog + 25)"
    and f: "(\<forall>h. ''fetchingSettings'' \<notin> fst ` set (titleFromName h 0)) \<longrightarrow>
          getOwn (heap w') (JRef 0) ''fetchingSettings'' = JBool False"
    and m: "\<forall>k. k \<in> set (ownKeys (heap blog) (JRef 14)) \<and> k \<noteq> ''latestSettings'' \<and> k \<noteq> ''fetchingSettings''
            \<and> (\<forall>h. k \<notin> fst ` set (titleFromName h 0)) \<longrightarrow>
          getOwn (heap w') (JRef 0) k
          = (if isEqual (reached 0 (JRef 14)
                           (stamped (heap (fetchSettings titleFromName blog 0 JUndefined)) 14 (clock blog + 25)) k)
                  (getOwn (heap blog) (JRef 14) k) (getOwn (heap blog) (JRef 0) k)
             then getOwn (heap blog) (JRef 0) k else getOwn (heap blog) (JRef 14) k)
          \<and> (\<not> isRef (getOwn (heap blog) (JRef 14) k) \<or> \<not> isRef (getOwn (heap blog) (JRef 0) k) \<longrightarrow>
               getOwn (heap w') (JRef 0) k = getOwn (heap blog) (JRef 14) k)"
    and k: "\<forall>k. k \<notin> set (ownKeys (heap blog) (JRef 14)) \<and> k \<noteq> ''latestSettings'' \<and> k \<noteq> ''fetchingSettings''
            \<and> (\<forall>h. k \<notin> fst ` set (titleFromName h 0)) \<longrightarrow>
          map_of (ownProps (heap w') (JRef 0)) k = map_of (ownProps (heap blog) (JRef 0)) k"
    and o: "\<forall>a. a < length (heap blog) \<and> a \<noteq> 0 \<and> a \<noteq> 14 \<longrightarrow> lookup (heap w') a = lookup (heap blog) a"
    by (elim exE conjE)
  have "getOwn (heap w') (JRef 0) ''latestSettings'' = JNum 1025"
    using l nc [of "''latestSettings''"] by (simp add: vals)
  moreover have "getOwn (heap w') (JRef 0) ''fetchingSettings'' = JBool False"
    using f nc [of "''fetchingSettings''"] by simp
  moreover have "getOwn (heap w') (JRef 0) ''blogname'' = JStr ''Foo''"
  proof -
    have "''blogname'' \<in> set (ownKeys (heap blog) (JRef 14)) \<and> ''blogname'' \<noteq> ''latestSettings''
        \<and> ''blogname'' \<noteq> ''fetchingSettings'' \<and> (\<forall>h. ''blogname'' \<notin> fst ` set (titleFromName h 0))"
      using nc [of "''blogname''"] by (simp add: keys)
    from m [rule_format, OF this]
    have "\<not> isRef (getOwn (heap blog) (JRef 14) ''blogname'')
          \<or> \<not> isRef (getOwn (heap blog) (JRef 0) ''blogname'') \<longrightarrow>
               getOwn (heap w') (JRef 0) ''blogname'' = getOwn (heap blog) (JRef 14) ''blogname''"
      by (rule conjunct2)
    then show ?thesis by (simp add: vals)
  qed
  moreover have "getOwn (heap w') (JRef 0) ''settings'' = JRef 11"
  proof -
    have "''settings'' \<in> set (ownKeys (heap blog) (JRef 14)) \<and> ''settings'' \<noteq> ''latestSettings''
        \<and> ''settings'' \<noteq> ''fetchingSettings'' \<and> (\<forall>h. ''settings'' \<notin> fst ` set (titleFromName h 0))"
      using nc [of "''settings''"] by (simp add: keys)
    from m [rule_format, OF this]
    have "getOwn (heap w') (JRef 0) ''settings''
          = (if isEqual (reached 0 (JRef 14)
                           (stamped (heap (fetchSettings titleFromName blog 0 JUndefined)) 14 (clock blog + 25))
                           ''settings'')
                  (getOwn (heap blog) (JRef 14) ''settings'') (getOwn (heap blog) (JRef 0) ''settings'')
             then getOwn (heap blog) (JRef 0) ''settings'' else getOwn (heap blog) (JRef 14) ''settings'')"
      by (rule conjunct1)
    then show ?thesis unfolding vals(2) vals(3) using ne by simp
  qed
  moreover have "getOwn (heap w') (JRef 0) ''ID'' = JNum 7"
    using k [rule_format, of "''ID''"] nc [of "''ID''"] vals(4)
    by (simp add: keys getOwn_def del: ownProps.simps)
  moreover have "lookup (heap w') 1 = lookup (heap blog) 1"
    using o [rule_format, of 1] vals(6) by simp
  ultimately show ?thesis using r vals(3) by (intro exI [of _ w']) simp
qed

text \<open>
  C8, as stated, fails: answered within the millisecond of the call, the timestamp equals
  the time of the call.
\<close>

lemma fetchSettings_at_once:
  "(case fetchSettings_answered titleFromName blog 0 JUndefined 0 JNull (JRef 9) of
      Inr w' \<Rightarrow> getOwn (heap w') (JRef 0) ''latestSettings'' = JNum 1000 \<and> clock blog = 1000
    | Inl e \<Rightarrow> False)"
  by code_simp

theorem fetchSettings_same_millisecond:
  "\<exists>w'. fetchSettings_answered titleFromName blog 0 JUndefined 0 JNull (JRef 9) = Inr w'
       \<and> getOwn (heap w') (JRef 0) ''latestSettings'' = JNum 1000 \<and> clock blog = 1000
       \<and> \<not> clock blog < 1000"
  using fetchSettings_at_once by (cases "fetchSettings_answered titleFromName blog 0 JUndefined 0 JNull (JRef 9)") simp_all


section \<open>The claims on \<open>saveSettings\<close>\<close>

text \<open>
  C9, as the code has it. When \<open>newSettings\<close> is an object whose \<open>whitelistString\<close> is a
  string, the settings sent are a new object without the key \<open>whitelistString\<close>, whose
  \<open>jetpack_protect_whitelist\<close> is an array of the pieces of the string between its newline
  characters (no piece holds a newline, and joined by newlines the pieces give the string
  back), and whose other properties are those of \<open>newSettings\<close>; no object but
  \<open>newSettings\<close> is written to.
\<close>

theorem saveSettings_whitelist:
  assumes "getOwn (heap w) (JRef ns) ''whitelistString'' = JStr s"
  shows "\<exists>w' copy pieces.
      saveSettings w self (JRef ns) = Inr (w', JRef copy)
    \<and> requests w' = requests w @ [[getOwn (heap w') (JRef self) ''ID'', JStr ''post'', JRef copy]]
    \<and> ''whitelistString'' \<notin> set (ownKeys (heap w') (JRef copy))
    \<and> getOwn (heap w') (JRef copy) ''jetpack_protect_whitelist'' = JRef pieces
    \<and> lookup (heap w') pieces = Some (array (map JStr (splitOn newline s)))
    \<and> joinWith newline (splitOn newline s) = s
    \<and> (\<forall>p\<in>set (splitOn newline s). newline \<notin> set p)
    \<and> (\<forall>k. k \<noteq> ''whitelistString'' \<and> k \<noteq> ''jetpack_protect_whitelist'' \<longrightarrow>
          getOwn (heap w') (JRef copy) k = getOwn (heap w) (JRef ns) k)
    \<and> (\<forall>a. a < length (heap w) \<and> a \<noteq> ns \<longrightarrow> lookup (heap w') a = lookup (heap w) a)"
proof -
  define P where "P = length (heap w)"
  define h1 where "h1 = heap w @ [array (map JStr (splitOn newline s))]"
  define h2 where "h2 = putOwn h1 ns ''jetpack_protect_whitelist'' (JRef P)"
  define h3 where "h3 = h2 @ [omit h2 (JRef ns) ''whitelistString'']"
  define w' where "w' = w\<lparr>heap := h3,
      requests := requests w @ [[getOwn h3 (JRef self) ''ID'', JStr ''post'', JRef (Suc P)]]\<rparr>"
  have ns: "ns < P"
    using assms getOwn_Some_valid [of "heap w" ns "''whitelistString''"] by (simp add: P_def)
  have len: "length h1 = Suc P" "length h2 = Suc P"
    by (simp_all add: h1_def h2_def P_def)
  have res: "saveSettings w self (JRef ns) = Inr (w', JRef (Suc P))"
    using saveSettings_split [OF assms, of self]
    by (simp add: Let_def w'_def h3_def h2_def h1_def P_def)
  have copy: "ownProps h3 (JRef (Suc P)) = props (omit h2 (JRef ns) ''whitelistString'')"
    using lookup_append_new [of h2] by (simp add: h3_def len)
  have nsp: "\<And>k. map_of (ownProps h2 (JRef ns)) k
              = (if k = ''jetpack_protect_whitelist'' then Some (JRef P)
                 else map_of (ownProps (heap w) (JRef ns)) k)"
    using ns by (simp add: h2_def h1_def map_of_ownProps_putOwn_self ownProps_append_old P_def
        del: ownProps.simps)
  have "lookup h2 P = Some (array (map JStr (splitOn newline s)))"
    using ns lookup_append_new [of "heap w"] by (simp add: h2_def h1_def P_def)
  then have arr: "lookup h3 P = Some (array (map JStr (splitOn newline s)))"
    using lookup_append_old [of P h2] by (simp add: h3_def len)
  have nokey: "''whitelistString'' \<notin> set (ownKeys h3 (JRef (Suc P)))"
    using omit_keys [of "''whitelistString''" h2 "JRef ns" "''whitelistString''"]
    by (simp add: ownKeys_def copy del: ownProps.simps)
  have jpw: "getOwn h3 (JRef (Suc P)) ''jetpack_protect_whitelist'' = JRef P"
    by (simp add: getOwn_def copy omit_map_of nsp del: ownProps.simps)
  have others: "getOwn h3 (JRef (Suc P)) k = getOwn (heap w) (JRef ns) k"
    if "k \<noteq> ''whitelistString''" "k \<noteq> ''jetpack_protect_whitelist''" for k
    using that by (simp add: getOwn_def copy omit_map_of nsp del: ownProps.simps)
  have hw: "heap w' = h3"
    and rq: "requests w' = requests w @ [[getOwn (heap w') (JRef self) ''ID'', JStr ''post'', JRef (Suc P)]]"
    by (simp_all add: w'_def)
  have sp: "\<forall>p\<in>set (splitOn newline s). newline \<notin> set p"
    using splitOn_pieces by blast
  have frame: "lookup h3 a = lookup (heap w) a" if "a < length (heap w)" "a \<noteq> ns" for a
  proof -
    have "lookup h3 a = lookup h2 a" using that(1) by (simp add: h3_def lookup_append_old len P_def)
    also have "\<dots> = lookup h1 a" using that(2) by (simp add: h2_def)
    also have "\<dots> = lookup (heap w) a" using that(1) by (simp add: h1_def lookup_append_old)
    finally show ?thesis .
  qed
  show ?thesis
    apply (rule exI [of _ w'], rule exI [of _ "Suc P"], rule exI [of _ P])
    using res rq nokey jpw arr joinWith_splitOn [of newline s] sp others frame unfolding hw
    by simp
qed

theorem saveSettings_whitelist_witness:
  "\<exists>w' copy pieces.
      saveSettings blog 0 (JRef 8) = Inr (w', JRef copy)
    \<and> requests w' = [[JNum 7, JStr ''post'', JRef copy]]
    \<and> ''whitelistString'' \<notin> set (ownKeys (heap w') (JRef copy))
    \<and> getOwn (heap w') (JRef copy) ''jetpack_protect_whitelist'' = JRef pieces
    \<and> lookup (heap w') pieces = Some (array [JStr ''1.2.3.4'', JStr ''5.6.7.8''])
    \<and> getOwn (heap w') (JRef copy) ''x'' = JNum 3"
proof -
  have pre: "getOwn (heap blog) (JRef 8) ''whitelistString'' = JStr (''1.2.3.4'' @ [newline] @ ''5.6.7.8'')"
    by (simp add: blog_def getOwn_def lookup_def plain_def)
  have sp: "splitOn newline (''1.2.3.4'' @ [newline] @ ''5.6.7.8'') = [''1.2.3.4'', ''5.6.7.8'']"
    by (simp add: newline_def)
  have x: "getOwn (heap blog) (JRef 8) ''x'' = JNum 3" "requests blog = []"
    by (simp_all add: blog_def getOwn_def lookup_def plain_def)
  from saveSettings_whitelist [OF pre, of 0]
  obtain w' copy pieces where
    r: "saveSettings blog 0 (JRef 8) = Inr (w', JRef copy)"
    and q: "requests w' = requests blog @ [[getOwn (heap w') (JRef 0) ''ID'', JStr ''post'', JRef copy]]"
    and n: "''whitelistString'' \<notin> set (ownKeys (heap w') (JRef copy))"
    and j: "getOwn (heap w') (JRef copy) ''jetpack_protect_whitelist'' = JRef pieces"
    and a: "lookup (heap w') pieces = Some (array (map JStr (splitOn newline (''1.2.3.4'' @ [newline] @ ''5.6.7.8''))))"
    and o: "\<forall>k. k \<noteq> ''whitelistString'' \<and> k \<noteq> ''jetpack_protect_whitelist'' \<longrightarrow>
          getOwn (heap w') (JRef copy) k = getOwn (heap blog) (JRef 8) k"
    and f: "\<forall>a. a < length (heap blog) \<and> a \<noteq> 8 \<longrightarrow> lookup (heap w') a = lookup (heap blog) a"
    by (elim exE conjE)
  have "lookup (heap w') 0 = lookup (heap blog) 0"
    using f by (simp add: blog_def)
  then have id: "getOwn (heap w') (JRef 0) ''ID'' = JNum 7"
    by (simp add: getOwn_def) (simp add: blog_def lookup_def plain_def)
  have "getOwn (heap w') (JRef copy) ''x'' = JNum 3" using o x by simp
  then show ?thesis using r q n j a id unfolding sp x by auto
qed

text \<open>
  C9, as stated, fails: a \<open>whitelistString\<close> that is not a string (here the number 5) is
  sent as it is, in the object the caller gave, and no \<open>jetpack_protect_whitelist\<close> is added.
\<close>

theorem saveSettings_whitelist_not_string:
  "''whitelistString'' \<in> set (ownKeys (heap blog) (JRef 12))
   \<and> saveSettings blog 0 (JRef 12) = Inr (blog\<lparr>requests := [[JNum 7, JStr ''post'', JRef 12]]\<rparr>, JRef 12)
   \<and> getOwn (heap blog) (JRef 12) ''whitelistString'' = JNum 5
   \<and> getOwn (heap blog) (JRef 12) ''jetpack_protect_whitelist'' = JUndefined"
  by (simp add: saveSettings_def getProp_def andThen_def blog_def getOwn_def ownKeys_def lookup_def plain_def)





end
